theory Spec2Isabelle
  imports Main "HOL-Library.Sublist"
begin

text \<open>
  The export pipeline of \<open>gitma_canspin\<close> (\<open>_export_annotations.py\<close>): the basic token table,
  the alignment of annotations with tokens in IOB2 style, and the TEI document built from
  the annotated table. Tables are lists of rows, a run that raises returns the error, and
  the tokeniser, the reading and writing of files by pandas and the XML serializer are
  parameters.
\<close>

section \<open>Python strings\<close>

text \<open>
  A Python \<open>str\<close> is modelled as a \<open>string\<close>; one \<open>char\<close> stands for one character of the
  text (the two guillemets of the punctuation table are the Latin-1 characters 0xAB and 0xBB).
\<close>

definition newline :: char where
  "newline = CHR 0x0A"

definition backslash :: char where
  "backslash = CHR 0x5C"

text \<open>The escaped line break: the two characters backslash and n (Python \<open>'\\n'\<close>).\<close>

definition line_break_marker :: string where
  "line_break_marker = [backslash, CHR ''n'']"

text \<open>\<open>pat in s\<close> for strings: \<open>pat\<close> occurs in \<open>s\<close> as a contiguous piece.\<close>

fun py_in :: "string \<Rightarrow> string \<Rightarrow> bool" where
  "py_in pat [] = (pat = [])"
| "py_in pat (c # cs) = (prefix pat (c # cs) \<or> py_in pat cs)"

text \<open>
  \<open>s.replace(pat, rep)\<close> and \<open>re.sub(pat, rep, s)\<close> for a literal pattern: the occurrences are
  found from the left, do not overlap, and each is replaced. For the empty pattern Python
  puts \<open>rep\<close> before every character and at the end.
\<close>

function py_replace :: "string \<Rightarrow> string \<Rightarrow> string \<Rightarrow> string" where
  "py_replace pat rep [] = (if pat = [] then rep else [])"
| "py_replace pat rep (c # cs) =
     (if pat = [] then rep @ c # py_replace pat rep cs
      else if prefix pat (c # cs) then rep @ py_replace pat rep (drop (length pat) (c # cs))
      else c # py_replace pat rep cs)"
  by pat_completeness auto
termination
  by (relation "measure (\<lambda>(pat, rep, s). length s)") (auto simp: neq_Nil_conv)

text \<open>\<open>s.startswith(pat)\<close>.\<close>

definition startswith :: "string \<Rightarrow> string \<Rightarrow> bool" where
  "startswith s pat = prefix pat s"

text \<open>
  \<open>s[a:b]\<close>: a negative bound counts from the end of the string, and every bound is then
  cut to the range from 0 to the length.
\<close>

definition slice_bound :: "nat \<Rightarrow> int \<Rightarrow> nat" where
  "slice_bound L i = (if i < 0 then nat (max 0 (int L + i)) else min (nat i) L)"

definition py_slice :: "'a list \<Rightarrow> int \<Rightarrow> int \<Rightarrow> 'a list" where
  "py_slice s a b =
     (let lo = slice_bound (length s) a; hi = slice_bound (length s) b
      in take (hi - lo) (drop lo s))"

text \<open>\<open>s.split(sep)[-1]\<close> for a one-character separator: what follows the last separator.\<close>

definition split_last :: "char \<Rightarrow> string \<Rightarrow> string" where
  "split_last sep s = rev (takeWhile (\<lambda>c. c \<noteq> sep) (rev s))"

datatype py_error = IndexError | KeyError | AttributeError

section \<open>The token tables\<close>

text \<open>
  A row of the basic token table: the columns Token_ID, Text_Pointer, Token. The cells of
  the column Token are strings. (A table in which pandas read a token as a missing value
  or as a number is outside this type; on such a cell the source raises \<open>TypeError\<close> at its
  first \<open>in\<close> test.)
\<close>

record token_row =
  Token_ID :: int
  Text_Pointer :: int
  Token :: string

text \<open>A row of the annotated token table: three more columns.\<close>

record annotated_row = token_row +
  Tag :: string
  Annotation_ID :: string
  Multi_Token_Annotation :: int

text \<open>
  The text window \<open>text_borders\<close> is a pair of offsets or \<open>None\<close>; the expression
  \<open>text_borders[0] if text_borders else 0\<close> of the source is \<open>border_start\<close>.
\<close>

definition border_start :: "(int \<times> int) option \<Rightarrow> int" where
  "border_start text_borders = (case text_borders of None \<Rightarrow> 0 | Some (a, b) \<Rightarrow> a)"

text \<open>
  The text that \<open>create_basic_token_tsv\<close> and \<open>test_text_borders\<close> process:
  \<open>plain_text[text_borders[0]:text_borders[1]] if text_borders else plain_text\<close>.
\<close>

definition selected_text :: "string \<Rightarrow> (int \<times> int) option \<Rightarrow> string" where
  "selected_text plain_text text_borders =
     (case text_borders of None \<Rightarrow> plain_text | Some (a, b) \<Rightarrow> py_slice plain_text a b)"

text \<open>Clamping an offset to the range from 0 to the length of the text.\<close>

definition clamp_offset :: "nat \<Rightarrow> int \<Rightarrow> int" where
  "clamp_offset L v = max 0 (min v (int L))"

text \<open>The line of \<open>create_basic_token_tsv\<close> that keeps line breaks for the export.\<close>

definition escape_token :: "string \<Rightarrow> string" where
  "escape_token x = py_replace [newline] line_break_marker x"

text \<open>
  The tables are written and read by pandas: \<open>to_csv\<close> and \<open>read_csv\<close> are parameters, and a
  file is a value of any type. What \<open>read_csv\<close> returns is not always the table that \<open>to_csv\<close>
  was given (by default it reads texts such as null, NA, nan and the empty text as missing
  values, and a column of numerals as numbers): a property that needs the table to come
  back as it was written says so in a hypothesis.
\<close>

text \<open>Lines 135 to 142: the data frame that \<open>create_basic_token_tsv\<close> hands to \<open>to_csv\<close>.\<close>

definition basic_token_table ::
  "(string \<Rightarrow> token_row list) \<Rightarrow> string \<Rightarrow> (int \<times> int) option \<Rightarrow> token_row list" where
  "basic_token_table get_spacy_df plain_text text_borders =
     map (\<lambda>r. r\<lparr>Token := escape_token (Token r)\<rparr>)
       (get_spacy_df (selected_text plain_text text_borders))"

text \<open>
  \<open>create_basic_token_tsv\<close>: the window of the text is tokenised (the tokeniser
  \<open>get_spacy_df\<close> is a parameter), every token is escaped, and the table is written.
\<close>

definition create_basic_token_tsv ::
  "(string \<Rightarrow> token_row list) \<Rightarrow> (token_row list \<Rightarrow> 'file) \<Rightarrow> string \<Rightarrow>
   (int \<times> int) option \<Rightarrow> 'file" where
  "create_basic_token_tsv get_spacy_df to_csv plain_text text_borders =
     to_csv (basic_token_table get_spacy_df plain_text text_borders)"

text \<open>
  Writing a token sequence as the basic table, and reading the file back as line 165 does:
  \<open>pd.read_csv\<close> and nothing else.
\<close>

definition write_basic_token_table :: "(token_row list \<Rightarrow> 'file) \<Rightarrow> token_row list \<Rightarrow> 'file" where
  "write_basic_token_table to_csv x = create_basic_token_tsv (\<lambda>_. x) to_csv [] None"

definition read_token_table :: "('file \<Rightarrow> token_row list) \<Rightarrow> 'file \<Rightarrow> token_row list" where
  "read_token_table read_csv file = read_csv file"

text \<open>
  The annotated table is written by lines 233 to 237 and read by line 252: \<open>to_csv\<close> and
  \<open>pd.read_csv\<close>, with no escaping and no conversion.
\<close>

definition write_annotated_token_table ::
  "(annotated_row list \<Rightarrow> 'file) \<Rightarrow> annotated_row list \<Rightarrow> 'file" where
  "write_annotated_token_table to_csv out = to_csv out"

definition read_annotated_token_table ::
  "('file \<Rightarrow> annotated_row list) \<Rightarrow> 'file \<Rightarrow> annotated_row list" where
  "read_annotated_token_table read_csv file = read_csv file"

section \<open>Aligning annotations with tokens\<close>

text \<open>
  An annotation of the collection \<open>ac\<close>: row \<open>i\<close> of \<open>ac.df\<close> (columns tag, start_point,
  end_point) and \<open>ac.annotations[i]\<close> (its \<open>data['id']\<close> and the start and end of every
  selector in \<open>data['target']['items']\<close>) describe the same annotation and are kept together.
\<close>

record annotation =
  data_id :: string
  tag :: string
  start_point :: int
  end_point :: int
  target_items :: "(int \<times> int) list"

text \<open>
  A row of \<open>ac_data_df\<close> as the two loops see it: the index label (the position of the
  annotation in \<open>ac.annotations\<close>, kept by \<open>explode\<close>), the tag, and one start and end.
\<close>

record ac_row =
  row_label :: nat
  row_tag :: string
  row_start :: int
  row_end :: int

text \<open>
  With \<open>use_all_text_selection_segments\<close> every annotation contributes one row per selector,
  in order; without it, one row with the start and end point of \<open>ac.df\<close>. (An annotation
  with no selector explodes to a row of missing values, which no comparison matches; it
  contributes no row here.)
\<close>

definition ac_data_df :: "annotation list \<Rightarrow> bool \<Rightarrow> ac_row list" where
  "ac_data_df ac use_all_text_selection_segments =
     (if use_all_text_selection_segments
      then concat (map (\<lambda>(i, a). map (\<lambda>(s, e).
              \<lparr>row_label = i, row_tag = tag a, row_start = s, row_end = e\<rparr>) (target_items a))
            (enumerate 0 ac))
      else map (\<lambda>(i, a).
              \<lparr>row_label = i, row_tag = tag a, row_start = start_point a, row_end = end_point a\<rparr>)
            (enumerate 0 ac))"

definition filtered_row_df_beginning :: "ac_row list \<Rightarrow> (int \<times> int) option \<Rightarrow> token_row \<Rightarrow> ac_row list" where
  "filtered_row_df_beginning df text_borders row =
     filter (\<lambda>r. row_start r = Text_Pointer row + border_start text_borders
                \<and> \<not> py_in line_break_marker (Token row)) df"

definition filtered_row_df_inner :: "ac_row list \<Rightarrow> (int \<times> int) option \<Rightarrow> token_row \<Rightarrow> ac_row list" where
  "filtered_row_df_inner df text_borders row =
     filter (\<lambda>r. row_start r < Text_Pointer row + border_start text_borders
                \<and> row_end r > Text_Pointer row + border_start text_borders
                \<and> \<not> py_in line_break_marker (Token row)) df"

definition new_iob2_tag :: "ac_row list \<Rightarrow> (int \<times> int) option \<Rightarrow> token_row \<Rightarrow> string" where
  "new_iob2_tag df text_borders row =
     (case filtered_row_df_beginning df text_borders row of
        r # _ \<Rightarrow> ''B-'' @ row_tag r
      | [] \<Rightarrow> (case filtered_row_df_inner df text_borders row of
                 r # _ \<Rightarrow> ''I-'' @ row_tag r
               | [] \<Rightarrow> ''O''))"

definition new_iob2_tags :: "ac_row list \<Rightarrow> (int \<times> int) option \<Rightarrow> token_row list \<Rightarrow> string list" where
  "new_iob2_tags df text_borders tsv_data_df = map (new_iob2_tag df text_borders) tsv_data_df"

text \<open>The rows that the second loop looks the annotation up in.\<close>

definition filtered_row_df :: "ac_row list \<Rightarrow> (int \<times> int) option \<Rightarrow> token_row \<Rightarrow> ac_row list" where
  "filtered_row_df df text_borders row =
     filter (\<lambda>r. row_start r - border_start text_borders \<le> Text_Pointer row
                \<and> row_end r - border_start text_borders > Text_Pointer row) df"

text \<open>\<open>data['id'].split('/')[-1].split('_')[-1]\<close>.\<close>

definition annotation_id_of :: "string \<Rightarrow> string" where
  "annotation_id_of d = split_last (CHR ''_'') (split_last (CHR ''/'') d)"

text \<open>
  One round of the second loop, on the two lists built so far. \<open>iloc[0]\<close> of an empty frame
  and an index outside \<open>annotation_list\<close> raise \<open>IndexError\<close>.
\<close>

definition id_step ::
  "annotation list \<Rightarrow> ac_row list \<Rightarrow> (int \<times> int) option \<Rightarrow> string list \<times> int list \<Rightarrow>
   token_row \<times> string \<Rightarrow> py_error + (string list \<times> int list)" where
  "id_step ac df text_borders acc rt =
     (case acc of (annotation_ids, multi_token_annotation) \<Rightarrow>
      case rt of (row, tg) \<Rightarrow>
        if tg = ''O'' \<or> py_in line_break_marker (Token row)
        then Inr (annotation_ids @ [''none''], multi_token_annotation @ [0])
        else (case filtered_row_df df text_borders row of
                [] \<Rightarrow> Inl IndexError
              | r # _ \<Rightarrow>
                  if row_label r < length ac then
                    (let annotation_id = annotation_id_of (data_id (ac ! row_label r));
                         found_token_indices =
                           map fst (filter (\<lambda>(i, e). e = annotation_id) (enumerate 0 annotation_ids));
                         amount_of_found_token = int (length found_token_indices);
                         multi_token_annotation' =
                           map (\<lambda>(i, e). if i \<in> set found_token_indices then e + 1 else e)
                             (enumerate 0 multi_token_annotation);
                         multi_token_annotation_value = amount_of_found_token + 1
                     in Inr (annotation_ids @ [annotation_id],
                             multi_token_annotation' @ [multi_token_annotation_value]))
                  else Inl IndexError))"

fun id_loop ::
  "annotation list \<Rightarrow> ac_row list \<Rightarrow> (int \<times> int) option \<Rightarrow> string list \<times> int list \<Rightarrow>
   (token_row \<times> string) list \<Rightarrow> py_error + (string list \<times> int list)" where
  "id_loop ac df text_borders acc [] = Inr acc"
| "id_loop ac df text_borders acc (rt # rts) =
     (case id_step ac df text_borders acc rt of
        Inl e \<Rightarrow> Inl e
      | Inr acc' \<Rightarrow> id_loop ac df text_borders acc' rts)"

text \<open>
  \<open>create_annotated_token_tsv\<close>: the basic table that was read (every token a string), the
  collection, the window and the mode give the annotated table, or the error that ends the
  run.
\<close>

definition create_annotated_token_tsv ::
  "annotation list \<Rightarrow> token_row list \<Rightarrow> (int \<times> int) option \<Rightarrow> bool \<Rightarrow>
   py_error + annotated_row list" where
  "create_annotated_token_tsv ac tsv_data_df text_borders use_all_text_selection_segments =
     (let df = ac_data_df ac use_all_text_selection_segments;
          tags = new_iob2_tags df text_borders tsv_data_df
      in case id_loop ac df text_borders ([], []) (zip tsv_data_df tags) of
           Inl e \<Rightarrow> Inl e
         | Inr (annotation_ids, multi_token_annotation) \<Rightarrow>
             Inr (map (\<lambda>(row, tg, aid, m).
                    token_row.extend row
                      \<lparr>Tag = tg, Annotation_ID = aid, Multi_Token_Annotation = m\<rparr>)
                  (zip tsv_data_df (zip tags (zip annotation_ids multi_token_annotation)))))"

subsection \<open>Notions used to state the properties of the alignment\<close>

text \<open>
  The annotated table writes ''none'' for a token without annotation. The data model keeps
  that word apart from the identifiers (\<open>annotationId: string | "none"\<close>): in a well-formed
  collection no annotation's identifier is that word.
\<close>

definition none_free :: "annotation list \<Rightarrow> bool" where
  "none_free ac = list_all (\<lambda>a. annotation_id_of (data_id a) \<noteq> ''none'') ac"

text \<open>A token with its tag is matched when the second loop looks an annotation up for it.\<close>

definition matched :: "token_row \<times> string \<Rightarrow> bool" where
  "matched rt = (\<not> (snd rt = ''O'' \<or> py_in line_break_marker (Token (fst rt))))"

text \<open>The identifier the second loop appends for a token: that of the first row of its lookup.\<close>

definition row_annotation_id ::
  "annotation list \<Rightarrow> ac_row list \<Rightarrow> (int \<times> int) option \<Rightarrow> token_row \<times> string \<Rightarrow> string" where
  "row_annotation_id ac df text_borders rt =
     (if matched rt
      then annotation_id_of (data_id (ac ! row_label (hd (filtered_row_df df text_borders (fst rt)))))
      else ''none'')"

text \<open>
  The multi-token index as a dense count: for every identifier of the table other than
  ''none'', the values of its rows, in order, are 1, 2, ..., n.
\<close>

definition dense_multi_token_index :: "annotated_row list \<Rightarrow> bool" where
  "dense_multi_token_index out =
     list_all (\<lambda>a. a = ''none'' \<or>
         map Multi_Token_Annotation (filter (\<lambda>r. Annotation_ID r = a) out) =
         map int [1 ..< Suc (length (filter (\<lambda>r. Annotation_ID r = a) out))])
       (map Annotation_ID out)"

text \<open>The invariant of the second loop: the index of a row counts the rows of its identifier.\<close>

definition multi_inv :: "string list \<Rightarrow> int list \<Rightarrow> bool" where
  "multi_inv ids multi =
     (multi = map (\<lambda>a. if a = ''none'' then 0 else int (count_list ids a)) ids)"

subsection \<open>Example inputs\<close>

definition ex_tokens :: "token_row list" where
  "ex_tokens = [\<lparr>Token_ID = 0, Text_Pointer = 0, Token = ''The''\<rparr>,
                \<lparr>Token_ID = 1, Text_Pointer = 4, Token = ''red''\<rparr>,
                \<lparr>Token_ID = 2, Text_Pointer = 8, Token = ''fox''\<rparr>]"

definition ex_two_token_annotation :: "annotation list" where
  "ex_two_token_annotation =
     [\<lparr>data_id = ''https://git.catma.de/annotations/CATMA_A1'', tag = ''Color'',
       start_point = 0, end_point = 7, target_items = [(0, 7)]\<rparr>]"

definition ex_two_token_table :: "annotated_row list" where
  "ex_two_token_table =
     [\<lparr>Token_ID = 0, Text_Pointer = 0, Token = ''The'', Tag = ''B-Color'',
       Annotation_ID = ''A1'', Multi_Token_Annotation = 2\<rparr>,
      \<lparr>Token_ID = 1, Text_Pointer = 4, Token = ''red'', Tag = ''I-Color'',
       Annotation_ID = ''A1'', Multi_Token_Annotation = 2\<rparr>,
      \<lparr>Token_ID = 2, Text_Pointer = 8, Token = ''fox'', Tag = ''O'',
       Annotation_ID = ''none'', Multi_Token_Annotation = 0\<rparr>]"

definition ex_line_break_tokens :: "token_row list" where
  "ex_line_break_tokens =
     [\<lparr>Token_ID = 0, Text_Pointer = 0, Token = ''The''\<rparr>,
      \<lparr>Token_ID = 1, Text_Pointer = 3, Token = line_break_marker\<rparr>,
      \<lparr>Token_ID = 2, Text_Pointer = 4, Token = ''red''\<rparr>]"

definition ex_line_break_table :: "annotated_row list" where
  "ex_line_break_table =
     [\<lparr>Token_ID = 0, Text_Pointer = 0, Token = ''The'', Tag = ''B-Color'',
       Annotation_ID = ''A1'', Multi_Token_Annotation = 2\<rparr>,
      \<lparr>Token_ID = 1, Text_Pointer = 3, Token = line_break_marker, Tag = ''O'',
       Annotation_ID = ''none'', Multi_Token_Annotation = 0\<rparr>,
      \<lparr>Token_ID = 2, Text_Pointer = 4, Token = ''red'', Tag = ''I-Color'',
       Annotation_ID = ''A1'', Multi_Token_Annotation = 2\<rparr>]"

definition ex_overlapping_annotations :: "annotation list" where
  "ex_overlapping_annotations =
     [\<lparr>data_id = ''https://git.catma.de/annotations/CATMA_A1'', tag = ''Color'',
       start_point = 0, end_point = 7, target_items = [(0, 7)]\<rparr>,
      \<lparr>data_id = ''https://git.catma.de/annotations/CATMA_B2'', tag = ''Size'',
       start_point = 4, end_point = 7, target_items = [(4, 7)]\<rparr>]"

definition ex_overlapping_table :: "annotated_row list" where
  "ex_overlapping_table =
     [\<lparr>Token_ID = 0, Text_Pointer = 0, Token = ''The'', Tag = ''B-Color'',
       Annotation_ID = ''A1'', Multi_Token_Annotation = 2\<rparr>,
      \<lparr>Token_ID = 1, Text_Pointer = 4, Token = ''red'', Tag = ''B-Size'',
       Annotation_ID = ''A1'', Multi_Token_Annotation = 2\<rparr>,
      \<lparr>Token_ID = 2, Text_Pointer = 8, Token = ''fox'', Tag = ''O'',
       Annotation_ID = ''none'', Multi_Token_Annotation = 0\<rparr>]"

definition ex_zero_length_annotation :: "annotation list" where
  "ex_zero_length_annotation =
     [\<lparr>data_id = ''https://git.catma.de/annotations/CATMA_Z0'', tag = ''Color'',
       start_point = 4, end_point = 4, target_items = [(4, 4)]\<rparr>]"

definition ex_untagged_table :: "annotated_row list" where
  "ex_untagged_table =
     [\<lparr>Token_ID = 0, Text_Pointer = 0, Token = ''The'', Tag = ''O'',
       Annotation_ID = ''none'', Multi_Token_Annotation = 0\<rparr>,
      \<lparr>Token_ID = 1, Text_Pointer = 4, Token = ''red'', Tag = ''O'',
       Annotation_ID = ''none'', Multi_Token_Annotation = 0\<rparr>,
      \<lparr>Token_ID = 2, Text_Pointer = 8, Token = ''fox'', Tag = ''O'',
       Annotation_ID = ''none'', Multi_Token_Annotation = 0\<rparr>]"

definition ex_newline_token :: "token_row list" where
  "ex_newline_token = [\<lparr>Token_ID = 0, Text_Pointer = 3, Token = [newline]\<rparr>]"

definition ex_backslash_n_token :: "token_row list" where
  "ex_backslash_n_token = [\<lparr>Token_ID = 0, Text_Pointer = 3, Token = line_break_marker\<rparr>]"

section \<open>Building the document\<close>

text \<open>
  An element of the tree as \<open>lxml\<close> keeps it: tag, attributes, the text before the first
  child, the tail after the element, and the children. The elements live in a store, a
  list indexed by address, so that a variable of the source that refers to an element
  (\<open>body_el\<close>, the entries of \<open>_paragraph_list\<close>, \<open>_last_sibling_element\<close>) is an address.
\<close>

record element =
  el_tag :: string
  el_attrib :: "(string \<times> string) list"
  el_text :: "string option"
  el_tail :: "string option"
  el_children :: "nat list"

definition Element :: "string \<Rightarrow> (string \<times> string) list \<Rightarrow> element" where
  "Element tg attrib =
     \<lparr>el_tag = tg, el_attrib = attrib, el_text = None, el_tail = None, el_children = []\<rparr>"

text \<open>
  \<open>etree.SubElement(parent, tag, attrib)\<close>: a new element, appended to the parent's children.
  (\<open>lxml\<close> raises an error of its own for a tag that is no XML name and for an attribute
  value that is no string. These errors are not in the model: where the model returns a
  document, the source returns it or raises one of them.)
\<close>

definition SubElement ::
  "element list \<Rightarrow> nat \<Rightarrow> string \<Rightarrow> (string \<times> string) list \<Rightarrow> element list \<times> nat" where
  "SubElement st parent tg attrib =
     (st[parent := (st ! parent)\<lparr>el_children := el_children (st ! parent) @ [length st]\<rparr>]
        @ [Element tg attrib],
      length st)"

text \<open>\<open>el.text = x if el.text is None else el.text + x\<close>, and the same for the tail.\<close>

definition append_text :: "element list \<Rightarrow> nat \<Rightarrow> string \<Rightarrow> element list" where
  "append_text st el x =
     st[el := (st ! el)\<lparr>el_text := Some (case el_text (st ! el) of None \<Rightarrow> x | Some t \<Rightarrow> t @ x)\<rparr>]"

definition append_tail :: "element list \<Rightarrow> nat \<Rightarrow> string \<Rightarrow> element list" where
  "append_tail st el x =
     st[el := (st ! el)\<lparr>el_tail := Some (case el_tail (st ! el) of None \<Rightarrow> x | Some t \<Rightarrow> t @ x)\<rparr>]"

definition TEI_NS :: string where
  "TEI_NS = ''http://www.tei-c.org/ns/1.0''"

definition TEI :: string where
  "TEI = ''{'' @ TEI_NS @ ''}''"

definition CS1_NS :: string where
  "CS1_NS = ''https://www.canspin.uni-rostock.de/ns/CS1/110''"

definition CS1 :: string where
  "CS1 = ''{'' @ CS1_NS @ ''}''"

text \<open>
  The elements made before the loop, at the addresses 0 to 6: \<open>tei_el\<close>, \<open>tei_header_el\<close>,
  \<open>text_el\<close>, \<open>body_el\<close> and the three children of the header.
\<close>

definition tei_el :: nat where "tei_el = 0"
definition tei_header_el :: nat where "tei_header_el = 1"
definition text_el :: nat where "text_el = 2"
definition body_el :: nat where "body_el = 3"

definition initial_store :: "element list" where
  "initial_store =
     (let st0 = [Element (TEI @ ''TEI'') []];
          st1 = fst (SubElement st0 tei_el (TEI @ ''teiHeader'') []);
          st2 = fst (SubElement st1 tei_el (TEI @ ''text'') []);
          st3 = fst (SubElement st2 text_el (TEI @ ''body'') []);
          st4 = fst (SubElement st3 tei_header_el (TEI @ ''fileDesc'') []);
          st5 = fst (SubElement st4 tei_header_el (TEI @ ''profileDesc'') [])
      in fst (SubElement st5 tei_header_el (TEI @ ''revisionDesc'') []))"

text \<open>The variables that the loop of \<open>create_annotated_tei\<close> changes.\<close>

record tei_state =
  store :: "element list"
  paragraph_list :: "nat list"
  last_sibling_element :: "nat option"

definition initial_state :: tei_state where
  "initial_state = \<lparr>store = initial_store, paragraph_list = [], last_sibling_element = None\<rparr>"

text \<open>
  The table of \<open>_fix_punctuation\<close>, in its order. Every pattern of the source is a regular
  expression for a fixed text (\<open>' \.'\<close> for a space and a period, and so on); the table holds
  that text. The two guillemets are the characters 0xBB and 0xAB.
\<close>

definition corrections :: "(string \<times> string) list" where
  "corrections =
     [('' .'', ''.''),
      ('' ,'', '',''),
      ('' :'', '':''),
      ('' ;'', '';''),
      ([CHR 0xBB, CHR '' ''], [CHR 0xBB]),
      ([CHR '' '', CHR 0xAB], [CHR 0xAB]),
      ('' ?'', ''?''),
      ('' !'', ''!''),
      ('' </p>'', ''</p>'')]"

text \<open>The loop of \<open>_fix_punctuation\<close>: one \<open>re.sub\<close> for each correction, in order.\<close>

fun fix_punctuation_loop :: "(string \<times> string) list \<Rightarrow> string \<Rightarrow> string" where
  "fix_punctuation_loop [] xml_string = xml_string"
| "fix_punctuation_loop (correction # rest) xml_string =
     fix_punctuation_loop rest (py_replace (fst correction) (snd correction) xml_string)"

definition fix_punctuation :: "string \<Rightarrow> string" where
  "fix_punctuation xml_string = fix_punctuation_loop corrections xml_string"

text \<open>
  \<open>_paragraph_recognition\<close>: the dictionary has the one key 'eltec-deu'; any other text
  class raises \<open>KeyError\<close>.
\<close>

definition paragraph_recognition :: "string \<Rightarrow> string \<Rightarrow> py_error + bool" where
  "paragraph_recognition token text_class =
     (if text_class = ''eltec-deu''
      then Inr (py_in line_break_marker token \<and> length token < 10)
      else Inl KeyError)"

text \<open>\<open>xs.insert(i, x)\<close> for an index that is not negative.\<close>

definition py_insert :: "nat \<Rightarrow> 'a \<Rightarrow> 'a list \<Rightarrow> 'a list" where
  "py_insert i x xs = take i xs @ [x] @ drop i xs"

text \<open>Lines 341 and 342: a new paragraph in the body; no span is open in it.\<close>

definition open_paragraph :: "nat \<Rightarrow> tei_state \<Rightarrow> tei_state" where
  "open_paragraph idx s =
     (case SubElement (store s) body_el (TEI @ ''p'') [] of
        (st, p) \<Rightarrow> s\<lparr>store := st, paragraph_list := py_insert idx p (paragraph_list s),
                     last_sibling_element := None\<rparr>)"

text \<open>Lines 339 to 342. For the first row the text class is not looked at.\<close>

definition paragraph_step ::
  "bool \<Rightarrow> string \<Rightarrow> nat \<Rightarrow> annotated_row \<Rightarrow> tei_state \<Rightarrow> py_error + tei_state" where
  "paragraph_step insert_paragraphs text_class idx row s =
     (if insert_paragraphs then
        (if idx = 0 then Inr (open_paragraph idx s)
         else (case paragraph_recognition (Token row) text_class of
                 Inl e \<Rightarrow> Inl e
               | Inr b \<Rightarrow> Inr (if b then open_paragraph idx s else s)))
      else Inr s)"

text \<open>\<open>_paragraph_list[-1] if insert_paragraphs else body_el\<close>.\<close>

definition current_parent :: "bool \<Rightarrow> tei_state \<Rightarrow> py_error + nat" where
  "current_parent insert_paragraphs s =
     (if insert_paragraphs
      then (if paragraph_list s = [] then Inl IndexError else Inr (last (paragraph_list s)))
      else Inr body_el)"

text \<open>
  Lines 348 to 356 and, word for word again, 358 to 366: the token goes into the text of
  the span, followed by a space when the next row is tagged I-, and otherwise the span is
  closed with a space in its tail.
\<close>

definition add_token_text ::
  "annotated_row list \<Rightarrow> nat \<Rightarrow> annotated_row \<Rightarrow> nat \<Rightarrow> element list \<Rightarrow> element list" where
  "add_token_text table idx row el st =
     (if idx < length table - 1 then
        (if startswith (Tag (table ! (idx + 1))) ''I-''
         then append_text st el (Token row @ '' '')
         else append_tail (append_text st el (Token row)) el '' '')
      else append_tail (append_text st el (Token row)) el '' '')"

text \<open>
  Lines 343 to 374. Reading \<open>.text\<close> of \<open>_last_sibling_element\<close> when it is \<open>None\<close> raises
  \<open>AttributeError\<close>.
\<close>

definition token_step ::
  "annotated_row list \<Rightarrow> bool \<Rightarrow> nat \<Rightarrow> annotated_row \<Rightarrow> tei_state \<Rightarrow> py_error + tei_state" where
  "token_step table insert_paragraphs idx row s =
     (if py_in line_break_marker (Token row) then Inr s
      else if Tag row \<noteq> ''O'' then
        (if startswith (Tag row) ''B-'' then
           (case current_parent insert_paragraphs s of
              Inl e \<Rightarrow> Inl e
            | Inr parent \<Rightarrow>
                (case SubElement (store s) parent (CS1 @ drop 2 (Tag row))
                        [(CS1 @ ''annotation'', Annotation_ID row)] of
                   (st, el) \<Rightarrow>
                     Inr (s\<lparr>store := add_token_text table idx row el st,
                            last_sibling_element := Some el\<rparr>)))
         else
           (case last_sibling_element s of
              None \<Rightarrow> Inl AttributeError
            | Some el \<Rightarrow> Inr (s\<lparr>store := add_token_text table idx row el (store s)\<rparr>)))
      else
        (case last_sibling_element s of
           Some el \<Rightarrow> Inr (s\<lparr>store := append_tail (store s) el (Token row @ '' '')\<rparr>)
         | None \<Rightarrow>
             (case current_parent insert_paragraphs s of
                Inl e \<Rightarrow> Inl e
              | Inr parent \<Rightarrow> Inr (s\<lparr>store := append_text (store s) parent (Token row @ '' '')\<rparr>))))"

text \<open>One round of the loop over the rows of the table.\<close>

definition body_step ::
  "annotated_row list \<Rightarrow> bool \<Rightarrow> string \<Rightarrow> nat \<Rightarrow> tei_state \<Rightarrow> py_error + tei_state" where
  "body_step table insert_paragraphs text_class idx s =
     (case paragraph_step insert_paragraphs text_class idx (table ! idx) s of
        Inl e \<Rightarrow> Inl e
      | Inr s' \<Rightarrow> token_step table insert_paragraphs idx (table ! idx) s')"

fun body_loop ::
  "annotated_row list \<Rightarrow> bool \<Rightarrow> string \<Rightarrow> nat list \<Rightarrow> tei_state \<Rightarrow> py_error + tei_state" where
  "body_loop table insert_paragraphs text_class [] s = Inr s"
| "body_loop table insert_paragraphs text_class (idx # idxs) s =
     (case body_step table insert_paragraphs text_class idx s of
        Inl e \<Rightarrow> Inl e
      | Inr s' \<Rightarrow> body_loop table insert_paragraphs text_class idxs s')"

text \<open>The tree after the loop over all rows.\<close>

definition build_body :: "annotated_row list \<Rightarrow> bool \<Rightarrow> string \<Rightarrow> py_error + tei_state" where
  "build_body table insert_paragraphs text_class =
     body_loop table insert_paragraphs text_class [0 ..< length table] initial_state"

text \<open>
  \<open>create_annotated_tei\<close>: the table as line 252 read it (its cells strings), the two
  settings, and the text that is written to the file, or the error. The serializer \<open>etree.tostring\<close> of \<open>lxml\<close> (with
  \<open>pretty_print\<close> and the declaration) is a parameter: it gets the store, whose address 0
  is the root.
\<close>

definition create_annotated_tei ::
  "(element list \<Rightarrow> string) \<Rightarrow> annotated_row list \<Rightarrow> bool \<Rightarrow> string \<Rightarrow> py_error + string" where
  "create_annotated_tei tostring table insert_paragraphs paragraph_recognition_text_class =
     (case build_body table insert_paragraphs paragraph_recognition_text_class of
        Inl e \<Rightarrow> Inl e
      | Inr s \<Rightarrow> Inr (fix_punctuation (tostring (store s))))"

subsection \<open>Notions used to state the properties of the document\<close>

text \<open>
  The rows at which a paragraph begins: the first row, and every row whose token contains
  the line-break marker and is shorter than 10 characters.
\<close>

definition paragraph_boundary :: "annotated_row list \<Rightarrow> nat \<Rightarrow> bool" where
  "paragraph_boundary table idx =
     (idx = 0 \<or> (py_in line_break_marker (Token (table ! idx)) \<and> length (Token (table ! idx)) < 10))"

text \<open>A token without line-break marker: the loop goes on to its tag.\<close>

definition content_token :: "annotated_row \<Rightarrow> bool" where
  "content_token row = (\<not> py_in line_break_marker (Token row))"

text \<open>A B-tagged content token opens a span.\<close>

definition opens_span :: "annotated_row \<Rightarrow> bool" where
  "opens_span row = (content_token row \<and> Tag row \<noteq> ''O'' \<and> startswith (Tag row) ''B-'')"

text \<open>
  An I-tagged content token goes into the open span: for the loop, any tag other than O
  that does not start with B-.
\<close>

definition continues_span :: "annotated_row \<Rightarrow> bool" where
  "continues_span row = (content_token row \<and> Tag row \<noteq> ''O'' \<and> \<not> startswith (Tag row) ''B-'')"

text \<open>At a paragraph boundary the open span is forgotten, when paragraphs are inserted.\<close>

definition resets_span :: "bool \<Rightarrow> annotated_row list \<Rightarrow> nat \<Rightarrow> bool" where
  "resets_span insert_paragraphs table idx = (insert_paragraphs \<and> paragraph_boundary table idx)"

text \<open>
  Row \<open>i\<close> is preceded by a B-tagged content token with no paragraph boundary after it, up to
  and including row \<open>i\<close>.
\<close>

definition span_open :: "bool \<Rightarrow> annotated_row list \<Rightarrow> nat \<Rightarrow> bool" where
  "span_open insert_paragraphs table i =
     list_ex (\<lambda>j. opens_span (table ! j)
                \<and> list_all (\<lambda>k. \<not> resets_span insert_paragraphs table k) [Suc j ..< Suc i])
       [0 ..< i]"

text \<open>Every I-tagged content token is preceded by a B-tagged one, within its paragraph.\<close>

definition spans_well_formed :: "bool \<Rightarrow> annotated_row list \<Rightarrow> bool" where
  "spans_well_formed insert_paragraphs table =
     list_all (\<lambda>i. continues_span (table ! i) \<longrightarrow> span_open insert_paragraphs table i)
       [0 ..< length table]"

text \<open>A span is open after the rows below \<open>k\<close>.\<close>

definition span_open_after :: "bool \<Rightarrow> annotated_row list \<Rightarrow> nat \<Rightarrow> bool" where
  "span_open_after insert_paragraphs table k =
     list_ex (\<lambda>j. opens_span (table ! j)
                \<and> list_all (\<lambda>l. \<not> resets_span insert_paragraphs table l) [Suc j ..< k])
       [0 ..< k]"

text \<open>
  The invariant of the tree while paragraphs are inserted: the children of the body are
  the paragraphs of \<open>_paragraph_list\<close>, each one a \<open>p\<close> element made after the body.
\<close>

definition tree_inv :: "tei_state \<Rightarrow> bool" where
  "tree_inv s =
     (body_el < length (store s)
      \<and> el_children (store s ! body_el) = paragraph_list s
      \<and> (\<forall>p \<in> set (paragraph_list s).
            body_el < p \<and> p < length (store s) \<and> el_tag (store s ! p) = TEI @ ''p''))"

text \<open>
  A serializer for the examples: the character data of the elements, in the order of the
  store.
\<close>

definition text_content :: "element list \<Rightarrow> string" where
  "text_content st =
     concat (map (\<lambda>e. (case el_text e of None \<Rightarrow> [] | Some t \<Rightarrow> t)
                      @ (case el_tail e of None \<Rightarrow> [] | Some t \<Rightarrow> t)) st)"

definition ex_two_paragraph_table :: "annotated_row list" where
  "ex_two_paragraph_table =
     [\<lparr>Token_ID = 0, Text_Pointer = 0, Token = ''Ein'', Tag = ''O'',
       Annotation_ID = ''none'', Multi_Token_Annotation = 0\<rparr>,
      \<lparr>Token_ID = 1, Text_Pointer = 4, Token = ''Haus'', Tag = ''B-Ort'',
       Annotation_ID = ''A1'', Multi_Token_Annotation = 1\<rparr>,
      \<lparr>Token_ID = 2, Text_Pointer = 9, Token = ''.'', Tag = ''O'',
       Annotation_ID = ''none'', Multi_Token_Annotation = 0\<rparr>,
      \<lparr>Token_ID = 3, Text_Pointer = 10, Token = line_break_marker, Tag = ''O'',
       Annotation_ID = ''none'', Multi_Token_Annotation = 0\<rparr>,
      \<lparr>Token_ID = 4, Text_Pointer = 11, Token = ''Ende'', Tag = ''O'',
       Annotation_ID = ''none'', Multi_Token_Annotation = 0\<rparr>]"

section \<open>Properties of the alignment\<close>

lemma enum_found:
  "set (map fst (filter (\<lambda>(i, e). e = a) (enumerate 0 ids))) = {i. i < length ids \<and> ids ! i = a}"
  by (force simp: in_set_enumerate_eq image_iff)

lemma enum_found_length:
  "length (filter (\<lambda>(i, e). e = a) (enumerate n ids)) = count_list ids a"
  by (induction ids arbitrary: n) auto

lemma multi_update:
  "length multi = length ids \<Longrightarrow>
   map (\<lambda>(i, e). if i \<in> set (map fst (filter (\<lambda>(i, e). e = a) (enumerate 0 ids))) then e + 1 else e)
     (enumerate 0 multi) = map (\<lambda>(x, e). if x = a then e + (1::int) else e) (zip ids multi)"
  unfolding enum_found
  by (rule nth_equalityI) (auto simp: nth_enumerate_eq)

text \<open>What one round of the second loop returns.\<close>

lemma id_step_unmatched:
  "\<not> matched rt \<Longrightarrow> id_step ac df tb (ids, multi) rt = Inr (ids @ [''none''], multi @ [0])"
  by (cases rt) (auto simp: id_step_def matched_def)

lemma id_step_matched:
  assumes "matched rt" and "id_step ac df tb (ids, multi) rt = Inr (ids', multi')"
    and "length multi = length ids"
  shows "filtered_row_df df tb (fst rt) \<noteq> []"
    and "row_label (hd (filtered_row_df df tb (fst rt))) < length ac"
    and "ids' = ids @ [row_annotation_id ac df tb rt]"
    and "multi' = map (\<lambda>(x, e). if x = row_annotation_id ac df tb rt then e + 1 else e) (zip ids multi)
           @ [int (count_list ids (row_annotation_id ac df tb rt)) + 1]"
proof -
  obtain row tg where rt: "rt = (row, tg)" by (cases rt)
  from assms(1) rt have m: "\<not> (tg = ''O'' \<or> py_in line_break_marker (Token row))"
    by (simp add: matched_def)
  from assms(2) m rt show ne: "filtered_row_df df tb (fst rt) \<noteq> []"
    by (auto simp: id_step_def split: list.splits)
  then obtain r rs where f: "filtered_row_df df tb row = r # rs"
    using rt by (cases "filtered_row_df df tb row") auto
  from assms(2) m rt f show lab: "row_label (hd (filtered_row_df df tb (fst rt))) < length ac"
    by (auto simp: id_step_def split: if_splits)
  have aid: "annotation_id_of (data_id (ac ! row_label r)) = row_annotation_id ac df tb (row, tg)"
    using assms(1) rt f by (simp add: row_annotation_id_def)
  from assms(2) m rt f lab show "ids' = ids @ [row_annotation_id ac df tb rt]"
    by (auto simp: id_step_def Let_def aid split: if_splits)
  from assms(2) m rt f lab
  have "multi' = map (\<lambda>(i, e). if i \<in> set (map fst (filter (\<lambda>(i, e). e = row_annotation_id ac df tb rt) (enumerate 0 ids))) then e + 1 else e)
     (enumerate 0 multi) @ [int (length (map fst (filter (\<lambda>(i, e). e = row_annotation_id ac df tb rt) (enumerate 0 ids)))) + 1]"
    by (auto simp: id_step_def Let_def aid split: if_splits)
  then show "multi' = map (\<lambda>(x, e). if x = row_annotation_id ac df tb rt then e + 1 else e) (zip ids multi)
           @ [int (count_list ids (row_annotation_id ac df tb rt)) + 1]"
    using multi_update [OF assms(3)] by (simp add: enum_found_length)
qed

lemma id_step_ids:
  assumes "id_step ac df tb (ids, multi) rt = Inr (ids', multi')" and "length multi = length ids"
  shows "ids' = ids @ [row_annotation_id ac df tb rt] \<and> length multi' = length ids'"
proof (cases "matched rt")
  case True
  from id_step_matched(3,4) [OF True assms] assms(2) show ?thesis by simp
next
  case False
  with assms id_step_unmatched [OF False, of ac df tb ids multi] show ?thesis
    by (auto simp: row_annotation_id_def)
qed

lemma id_loop_ids:
  "id_loop ac df tb (ids, multi) rts = Inr (ids', multi') \<Longrightarrow> length multi = length ids \<Longrightarrow>
   ids' = ids @ map (row_annotation_id ac df tb) rts \<and> length multi' = length ids'"
proof (induction rts arbitrary: ids multi)
  case Nil
  then show ?case by simp
next
  case (Cons rt rts)
  from Cons.prems(1) obtain ids1 multi1 where
    s: "id_step ac df tb (ids, multi) rt = Inr (ids1, multi1)"
    and l: "id_loop ac df tb (ids1, multi1) rts = Inr (ids', multi')"
    by (auto split: sum.splits)
  from id_step_ids [OF s Cons.prems(2)] have
    i1: "ids1 = ids @ [row_annotation_id ac df tb rt]" and l1: "length multi1 = length ids1"
    by simp_all
  from Cons.IH [OF l l1] i1 show ?case by simp
qed

text \<open>The index of every row is the number of rows of its identifier.\<close>

lemma none_free_nth: "none_free ac \<Longrightarrow> i < length ac \<Longrightarrow> annotation_id_of (data_id (ac ! i)) \<noteq> ''none''"
  by (simp add: none_free_def list_all_length)

lemma id_step_inv:
  assumes "id_step ac df tb (ids, multi) rt = Inr (ids', multi')"
    and "multi_inv ids multi" and "none_free ac"
  shows "multi_inv ids' multi'"
proof (cases "matched rt")
  case False
  with assms(1) id_step_unmatched [OF False, of ac df tb ids multi]
  have "ids' = ids @ [''none'']" "multi' = multi @ [0]" by simp_all
  with assms(2) show ?thesis by (simp add: multi_inv_def)
next
  case True
  from assms(2) have len: "length multi = length ids" by (simp add: multi_inv_def)
  let ?a = "row_annotation_id ac df tb rt"
  from id_step_matched [OF True assms(1) len] have
    ne: "filtered_row_df df tb (fst rt) \<noteq> []"
    and lab: "row_label (hd (filtered_row_df df tb (fst rt))) < length ac"
    and i: "ids' = ids @ [?a]"
    and m: "multi' = map (\<lambda>(x, e). if x = ?a then e + 1 else e) (zip ids multi) @ [int (count_list ids ?a) + 1]"
    by simp_all
  have a: "?a \<noteq> ''none''"
    using True none_free_nth [OF assms(3) lab] by (simp add: row_annotation_id_def)
  have "map (\<lambda>(x, e). if x = ?a then e + 1 else e) (zip ids multi)
      = map (\<lambda>x. if x = ''none'' then 0 else int (count_list (ids @ [?a]) x)) ids"
    using assms(2) a unfolding multi_inv_def
    by (intro nth_equalityI) auto
  with m i a show ?thesis by (simp add: multi_inv_def)
qed

lemma id_loop_inv:
  "id_loop ac df tb (ids, multi) rts = Inr (ids', multi') \<Longrightarrow> multi_inv ids multi \<Longrightarrow>
   none_free ac \<Longrightarrow> multi_inv ids' multi'"
proof (induction rts arbitrary: ids multi)
  case Nil
  then show ?case by simp
next
  case (Cons rt rts)
  from Cons.prems(1) obtain ids1 multi1 where
    s: "id_step ac df tb (ids, multi) rt = Inr (ids1, multi1)"
    and l: "id_loop ac df tb (ids1, multi1) rts = Inr (ids', multi')"
    by (auto split: sum.splits)
  from Cons.IH [OF l id_step_inv [OF s Cons.prems(2,3)] Cons.prems(3)] show ?case .
qed

lemma annotated_rows_columns:
  assumes "length tags = length toks" "length ids = length toks" "length multi = length toks"
    and "out = map (\<lambda>(row, tg, aid, m).
                    token_row.extend row
                      \<lparr>Tag = tg, Annotation_ID = aid, Multi_Token_Annotation = m\<rparr>)
                  (zip toks (zip tags (zip ids multi)))"
  shows "length out = length toks" and "map Tag out = tags" and "map Annotation_ID out = ids"
    and "map Multi_Token_Annotation out = multi" and "map Token out = map Token toks"
    and "map Text_Pointer out = map Text_Pointer toks" and "map Token_ID out = map Token_ID toks"
  using assms by (auto intro!: nth_equalityI simp: token_row.extend_def)

lemma create_annotated_token_tsv_rows:
  assumes "create_annotated_token_tsv ac toks tb m = Inr out"
  shows "length out = length toks"
    and "map Tag out = new_iob2_tags (ac_data_df ac m) tb toks"
    and "map Annotation_ID out =
           map (row_annotation_id ac (ac_data_df ac m) tb) (zip toks (new_iob2_tags (ac_data_df ac m) tb toks))"
    and "map Token out = map Token toks"
    and "map Text_Pointer out = map Text_Pointer toks"
    and "map Token_ID out = map Token_ID toks"
    and "none_free ac \<Longrightarrow> multi_inv (map Annotation_ID out) (map Multi_Token_Annotation out)"
proof -
  let ?df = "ac_data_df ac m"
  let ?tags = "new_iob2_tags ?df tb toks"
  from assms obtain ids multi where
    l: "id_loop ac ?df tb ([], []) (zip toks ?tags) = Inr (ids, multi)"
    and o: "out = map (\<lambda>(row, tg, aid, m).
                    token_row.extend row
                      \<lparr>Tag = tg, Annotation_ID = aid, Multi_Token_Annotation = m\<rparr>)
                  (zip toks (zip ?tags (zip ids multi)))"
    by (auto simp: create_annotated_token_tsv_def Let_def split: sum.splits)
  have lt: "length ?tags = length toks" by (simp add: new_iob2_tags_def)
  from id_loop_ids [OF l] have
    i: "ids = map (row_annotation_id ac ?df tb) (zip toks ?tags)" and lm: "length multi = length ids"
    by simp_all
  from i lt have li: "length ids = length toks" by simp
  from lm li have lm': "length multi = length toks" by simp
  note cols = annotated_rows_columns [OF lt li lm' o]
  show "length out = length toks" by (rule cols)
  show "map Tag out = ?tags" by (rule cols)
  show "map Annotation_ID out = map (row_annotation_id ac ?df tb) (zip toks ?tags)"
    using cols(3) i by simp
  show "map Token out = map Token toks" by (rule cols)
  show "map Text_Pointer out = map Text_Pointer toks" by (rule cols)
  show "map Token_ID out = map Token_ID toks" by (rule cols)
  show "multi_inv (map Annotation_ID out) (map Multi_Token_Annotation out)" if "none_free ac"
    using id_loop_inv [OF l _ that] cols(3,4) by (simp add: multi_inv_def)
qed

lemma create_annotated_token_tsv_row:
  assumes "create_annotated_token_tsv ac toks tb m = Inr out" and "i < length toks"
  shows "Tag (out ! i) = new_iob2_tag (ac_data_df ac m) tb (toks ! i)"
    and "Annotation_ID (out ! i) =
           row_annotation_id ac (ac_data_df ac m) tb (toks ! i, new_iob2_tag (ac_data_df ac m) tb (toks ! i))"
    and "Token (out ! i) = Token (toks ! i)"
    and "Text_Pointer (out ! i) = Text_Pointer (toks ! i)"
    and "Token_ID (out ! i) = Token_ID (toks ! i)"
    and "none_free ac \<Longrightarrow> Multi_Token_Annotation (out ! i) =
           (if Annotation_ID (out ! i) = ''none'' then 0
            else int (count_list (map Annotation_ID out) (Annotation_ID (out ! i))))"
proof -
  note r = create_annotated_token_tsv_rows [OF assms(1)]
  from r(1) assms(2) have io: "i < length out" by simp
  have n: "\<And>f. f (out ! i) = map f out ! i" using io by simp
  show "Tag (out ! i) = new_iob2_tag (ac_data_df ac m) tb (toks ! i)"
    using assms(2) by (simp add: n r(2) new_iob2_tags_def)
  show "Annotation_ID (out ! i) =
           row_annotation_id ac (ac_data_df ac m) tb (toks ! i, new_iob2_tag (ac_data_df ac m) tb (toks ! i))"
    using assms(2) by (simp add: n r(3) new_iob2_tags_def)
  show "Token (out ! i) = Token (toks ! i)" using assms(2) by (simp add: n r(4))
  show "Text_Pointer (out ! i) = Text_Pointer (toks ! i)" using assms(2) by (simp add: n r(5))
  show "Token_ID (out ! i) = Token_ID (toks ! i)" using assms(2) by (simp add: n r(6))
  show "Multi_Token_Annotation (out ! i) =
           (if Annotation_ID (out ! i) = ''none'' then 0
            else int (count_list (map Annotation_ID out) (Annotation_ID (out ! i))))" if "none_free ac"
  proof -
    from r(7) [OF that] have eq: "map Multi_Token_Annotation out =
       map (\<lambda>a. if a = ''none'' then 0 else int (count_list (map Annotation_ID out) a)) (map Annotation_ID out)"
      unfolding multi_inv_def .
    from arg_cong [OF eq, of "\<lambda>xs. xs ! i"] io show ?thesis by simp
  qed
qed

lemma count_list_Annotation_ID:
  "count_list (map Annotation_ID out) a = length (filter (\<lambda>r. Annotation_ID r = a) out)"
  by (induction out) auto

lemma new_iob2_tag_O_iff:
  "new_iob2_tag df tb row = ''O'' \<longleftrightarrow>
     filtered_row_df_beginning df tb row = [] \<and> filtered_row_df_inner df tb row = []"
  by (auto simp: new_iob2_tag_def split: list.splits)

lemma new_iob2_tag_line_break:
  "py_in line_break_marker (Token row) \<Longrightarrow> new_iob2_tag df tb row = ''O''"
  by (simp add: new_iob2_tag_O_iff filtered_row_df_beginning_def filtered_row_df_inner_def)

lemma ac_data_df_label:
  "r \<in> set (ac_data_df ac m) \<Longrightarrow> row_label r < length ac \<and> row_tag r = tag (ac ! row_label r)"
  by (auto simp: ac_data_df_def in_set_enumerate_eq split: if_splits)

lemma filtered_row_df_subset: "set (filtered_row_df df tb row) \<subseteq> set df"
  by (auto simp: filtered_row_df_def)

lemma id_loop_matched:
  "id_loop ac df tb (ids, multi) rts = Inr res \<Longrightarrow> length multi = length ids \<Longrightarrow>
   rt \<in> set rts \<Longrightarrow> matched rt \<Longrightarrow> filtered_row_df df tb (fst rt) \<noteq> []"
proof (induction rts arbitrary: ids multi)
  case Nil
  then show ?case by simp
next
  case (Cons x rts)
  from Cons.prems(1) obtain ids1 multi1 where
    s: "id_step ac df tb (ids, multi) x = Inr (ids1, multi1)"
    and l: "id_loop ac df tb (ids1, multi1) rts = Inr res"
    by (auto split: sum.splits)
  from id_step_ids [OF s Cons.prems(2)] have l1: "length multi1 = length ids1" by simp
  show ?case
  proof (cases "rt = x")
    case True
    with id_step_matched(1) [OF _ s Cons.prems(2)] Cons.prems(4) show ?thesis by simp
  next
    case False
    with Cons.prems(3) have "rt \<in> set rts" by simp
    from Cons.IH [OF l l1 this Cons.prems(4)] show ?thesis .
  qed
qed

lemma id_loop_returns:
  "(\<And>rt. rt \<in> set rts \<Longrightarrow> matched rt \<Longrightarrow>
      filtered_row_df df tb (fst rt) \<noteq> [] \<and> row_label (hd (filtered_row_df df tb (fst rt))) < length ac)
   \<Longrightarrow> \<exists>res. id_loop ac df tb acc rts = Inr res"
proof (induction rts arbitrary: acc)
  case Nil
  then show ?case by simp
next
  case (Cons x rts)
  obtain ids multi where acc: "acc = (ids, multi)" by (cases acc)
  obtain row tg where x: "x = (row, tg)" by (cases x)
  have "\<exists>acc'. id_step ac df tb acc x = Inr acc'"
  proof (cases "matched x")
    case False
    then show ?thesis using id_step_unmatched [OF False] acc by simp
  next
    case True
    with Cons.prems [of x] have f: "filtered_row_df df tb row \<noteq> []"
      and lab: "row_label (hd (filtered_row_df df tb row)) < length ac"
      using x by simp_all
    from True x have m: "\<not> (tg = ''O'' \<or> py_in line_break_marker (Token row))"
      by (simp add: matched_def)
    from f obtain r rs where fr: "filtered_row_df df tb row = r # rs"
      by (cases "filtered_row_df df tb row") auto
    with lab have "row_label r < length ac" by simp
    with m fr show ?thesis by (simp add: id_step_def acc x Let_def)
  qed
  then obtain acc' where s: "id_step ac df tb acc x = Inr acc'" ..
  from Cons.IH [of acc'] Cons.prems obtain res where "id_loop ac df tb acc' rts = Inr res"
    by auto
  with s show ?case by simp
qed

text \<open>When no segment is empty, every token that gets a tag finds its annotation.\<close>

lemma tagged_token_is_covered:
  assumes "\<forall>r \<in> set df. row_start r < row_end r" and "new_iob2_tag df tb row \<noteq> ''O''"
  shows "filtered_row_df df tb row \<noteq> []"
proof -
  let ?p = "Text_Pointer row + border_start tb"
  from assms(2) have "filtered_row_df_beginning df tb row \<noteq> [] \<or> filtered_row_df_inner df tb row \<noteq> []"
    by (simp add: new_iob2_tag_O_iff)
  then obtain r where "r \<in> set df" and "row_start r = ?p \<or> (row_start r < ?p \<and> ?p < row_end r)"
    by (auto simp: filtered_row_df_beginning_def filtered_row_df_inner_def filter_empty_conv)
  with assms(1) have "r \<in> set df \<and> row_start r - border_start tb \<le> Text_Pointer row
      \<and> row_end r - border_start tb > Text_Pointer row"
    by force
  then show ?thesis by (auto simp: filtered_row_df_def filter_empty_conv)
qed

lemma create_annotated_token_tsv_returns:
  assumes "\<forall>r \<in> set (ac_data_df ac m). row_start r < row_end r"
  shows "\<exists>out. create_annotated_token_tsv ac toks tb m = Inr out"
proof -
  let ?df = "ac_data_df ac m"
  let ?tags = "new_iob2_tags ?df tb toks"
  have "\<exists>res. id_loop ac ?df tb ([], []) (zip toks ?tags) = Inr res"
  proof (rule id_loop_returns)
    fix rt assume rt: "rt \<in> set (zip toks ?tags)" and m: "matched rt"
    from rt have "snd rt = new_iob2_tag ?df tb (fst rt)"
      by (auto simp: new_iob2_tags_def set_zip)
    with m have "new_iob2_tag ?df tb (fst rt) \<noteq> ''O''" by (simp add: matched_def)
    from tagged_token_is_covered [OF assms this] have ne: "filtered_row_df ?df tb (fst rt) \<noteq> []" .
    then have "hd (filtered_row_df ?df tb (fst rt)) \<in> set ?df"
      using filtered_row_df_subset hd_in_set by blast
    with ac_data_df_label ne
    show "filtered_row_df ?df tb (fst rt) \<noteq> [] \<and> row_label (hd (filtered_row_df ?df tb (fst rt))) < length ac"
      by blast
  qed
  then show ?thesis
    by (auto simp: create_annotated_token_tsv_def Let_def split: sum.splits prod.splits)
qed

lemma matched_iff_id:
  assumes "create_annotated_token_tsv ac toks tb m = Inr out" and "none_free ac" and "i < length toks"
  shows "matched (toks ! i, Tag (out ! i)) \<longleftrightarrow> Annotation_ID (out ! i) \<noteq> ''none''"
proof -
  let ?df = "ac_data_df ac m"
  let ?tags = "new_iob2_tags ?df tb toks"
  note row = create_annotated_token_tsv_row [OF assms(1,3)]
  let ?rt = "(toks ! i, Tag (out ! i))"
  show ?thesis
  proof (cases "matched ?rt")
    case False
    with row(1,2) show ?thesis by (simp add: row_annotation_id_def)
  next
    case True
    from assms(1) obtain res where
      l: "id_loop ac ?df tb ([], []) (zip toks ?tags) = Inr res"
      by (auto simp: create_annotated_token_tsv_def Let_def split: sum.splits)
    have "?rt \<in> set (zip toks ?tags)"
      using assms(3) row(1) by (auto simp: set_zip new_iob2_tags_def)
    from id_loop_matched [OF l _ this True] have ne: "filtered_row_df ?df tb (toks ! i) \<noteq> []"
      by simp
    then have "hd (filtered_row_df ?df tb (toks ! i)) \<in> set ?df"
      using filtered_row_df_subset hd_in_set by blast
    then have "row_label (hd (filtered_row_df ?df tb (toks ! i))) < length ac"
      using ac_data_df_label by blast
    from none_free_nth [OF assms(2) this] True row(1,2) show ?thesis
      by (simp add: row_annotation_id_def)
  qed
qed
lemma length_filter_nth:
  "length (filter P xs) = length (filter (\<lambda>k. P (xs ! k)) [0..<length xs])"
proof -
  have "length (filter (\<lambda>k. P (xs ! k)) [0..<length xs]) = card {k. k < length xs \<and> P (xs ! k)}"
    by (auto simp: length_filter_conv_card intro!: arg_cong [where f = card])
  then show ?thesis by (simp add: length_filter_conv_card)
qed

text \<open>
  C1 (as amended). In a table that \<open>create_annotated_token_tsv\<close> returns for a collection
  without the identifier ''none'', a matched token (a tag other than O and no line-break
  marker) carries an identifier other than ''none'' and, as its Multi_Token_Annotation, the
  number of all rows of the table that carry the same identifier: the n tokens of an
  annotation all carry n. A token that is not matched carries ''none'' and 0.
\<close>

theorem multi_token_annotation_total_count:
  assumes "create_annotated_token_tsv ac toks tb m = Inr out" and "none_free ac"
    and "i < length toks"
  shows "(matched (toks ! i, Tag (out ! i)) \<longrightarrow>
            Annotation_ID (out ! i) \<noteq> ''none'' \<and>
            Multi_Token_Annotation (out ! i) =
              int (length (filter (\<lambda>r. Annotation_ID r = Annotation_ID (out ! i)) out)))
       \<and> (\<not> matched (toks ! i, Tag (out ! i)) \<longrightarrow>
            Annotation_ID (out ! i) = ''none'' \<and> Multi_Token_Annotation (out ! i) = 0)"
  using matched_iff_id [OF assms] create_annotated_token_tsv_row(6) [OF assms(1,3,2)]
  by (simp add: count_list_Annotation_ID)

text \<open>The two-token annotation of the example: both of its tokens carry 2.\<close>

theorem multi_token_annotation_total_count_witness:
  "create_annotated_token_tsv ex_two_token_annotation ex_tokens None True = Inr ex_two_token_table
   \<and> none_free ex_two_token_annotation \<and> (0::nat) < length ex_tokens
   \<and> matched (ex_tokens ! 0, Tag (ex_two_token_table ! 0))
   \<and> Multi_Token_Annotation (ex_two_token_table ! 0) =
       int (length (filter (\<lambda>r. Annotation_ID r = Annotation_ID (ex_two_token_table ! 0)) ex_two_token_table))"
proof -
  have h1: "create_annotated_token_tsv ex_two_token_annotation ex_tokens None True = Inr ex_two_token_table"
    by code_simp
  have h2: "none_free ex_two_token_annotation" by code_simp
  have h3: "(0::nat) < length ex_tokens" by code_simp
  have h4: "matched (ex_tokens ! 0, Tag (ex_two_token_table ! 0))" by code_simp
  from multi_token_annotation_total_count [OF h1 h2 h3] h1 h2 h3 h4 show ?thesis by blast
qed

text \<open>
  C1 as stated fails: the values of the two tokens of the example annotation are 2 and 2,
  not 1 and 2.
\<close>

theorem dense_multi_token_index_counterexample:
  "create_annotated_token_tsv ex_two_token_annotation ex_tokens None True = Inr ex_two_token_table
   \<and> \<not> dense_multi_token_index ex_two_token_table"
  by code_simp

lemma new_iob2_tag_cases:
  assumes "\<not> py_in line_break_marker (Token row)"
  shows "(\<exists>r \<in> set df. row_start r = Text_Pointer row + border_start tb) \<Longrightarrow>
           \<exists>r \<in> set df. row_start r = Text_Pointer row + border_start tb
              \<and> new_iob2_tag df tb row = ''B-'' @ row_tag r"
    and "\<not> (\<exists>r \<in> set df. row_start r = Text_Pointer row + border_start tb) \<Longrightarrow>
         (\<exists>r \<in> set df. row_start r < Text_Pointer row + border_start tb
              \<and> Text_Pointer row + border_start tb < row_end r) \<Longrightarrow>
           \<exists>r \<in> set df. row_start r < Text_Pointer row + border_start tb
              \<and> Text_Pointer row + border_start tb < row_end r
              \<and> new_iob2_tag df tb row = ''I-'' @ row_tag r"
    and "\<not> (\<exists>r \<in> set df. row_start r = Text_Pointer row + border_start tb) \<Longrightarrow>
         \<not> (\<exists>r \<in> set df. row_start r < Text_Pointer row + border_start tb
              \<and> Text_Pointer row + border_start tb < row_end r) \<Longrightarrow>
           new_iob2_tag df tb row = ''O''"
proof -
  let ?p = "Text_Pointer row + border_start tb"
  have b: "filtered_row_df_beginning df tb row = filter (\<lambda>r. row_start r = ?p) df"
    using assms by (simp add: filtered_row_df_beginning_def)
  have i: "filtered_row_df_inner df tb row = filter (\<lambda>r. row_start r < ?p \<and> ?p < row_end r) df"
    using assms by (simp add: filtered_row_df_inner_def)
  {
    assume "\<exists>r \<in> set df. row_start r = ?p"
    then have "filter (\<lambda>r. row_start r = ?p) df \<noteq> []" by (simp add: filter_empty_conv)
    then obtain r rs where f: "filter (\<lambda>r. row_start r = ?p) df = r # rs"
      by (cases "filter (\<lambda>r. row_start r = ?p) df") auto
    then have "r \<in> set (filter (\<lambda>r. row_start r = ?p) df)" by simp
    then have "r \<in> set df \<and> row_start r = ?p" by simp
    with f b show "\<exists>r \<in> set df. row_start r = ?p \<and> new_iob2_tag df tb row = ''B-'' @ row_tag r"
      by (auto simp: new_iob2_tag_def)
  }
  {
    assume nb: "\<not> (\<exists>r \<in> set df. row_start r = ?p)"
      and "\<exists>r \<in> set df. row_start r < ?p \<and> ?p < row_end r"
    then have "filter (\<lambda>r. row_start r < ?p \<and> ?p < row_end r) df \<noteq> []"
      by (simp add: filter_empty_conv)
    then obtain r rs where f: "filter (\<lambda>r. row_start r < ?p \<and> ?p < row_end r) df = r # rs"
      by (cases "filter (\<lambda>r. row_start r < ?p \<and> ?p < row_end r) df") auto
    then have "r \<in> set (filter (\<lambda>r. row_start r < ?p \<and> ?p < row_end r) df)" by simp
    then have r: "r \<in> set df \<and> row_start r < ?p \<and> ?p < row_end r" by simp
    from nb have "filter (\<lambda>r. row_start r = ?p) df = []" by (simp add: filter_empty_conv)
    with f b i r show "\<exists>r \<in> set df. row_start r < ?p \<and> ?p < row_end r
        \<and> new_iob2_tag df tb row = ''I-'' @ row_tag r"
      by (auto simp: new_iob2_tag_def)
  }
  {
    assume "\<not> (\<exists>r \<in> set df. row_start r = ?p)"
      and "\<not> (\<exists>r \<in> set df. row_start r < ?p \<and> ?p < row_end r)"
    then show "new_iob2_tag df tb row = ''O''"
      by (simp add: new_iob2_tag_O_iff b i filter_empty_conv)
  }
qed

text \<open>
  C3. For a token without line-break marker, the emitted tag follows the three rules in
  order: B- and the tag of a segment that starts at the token's offset, if there is one;
  otherwise I- and the tag of a segment with start < offset < end, if there is one;
  otherwise O, with Annotation_ID ''none'' and Multi_Token_Annotation 0. An I- tag always
  comes from a segment whose end lies beyond the offset, so a token at the end of a
  segment gets no I- from it. (The collection has no identifier ''none''.)
\<close>

theorem three_rule_precedence:
  assumes "create_annotated_token_tsv ac toks tb m = Inr out" and "none_free ac"
    and "i < length toks" and "\<not> py_in line_break_marker (Token (toks ! i))"
  shows "((\<exists>r \<in> set (ac_data_df ac m). row_start r = Text_Pointer (toks ! i) + border_start tb) \<longrightarrow>
            (\<exists>r \<in> set (ac_data_df ac m). row_start r = Text_Pointer (toks ! i) + border_start tb
                \<and> Tag (out ! i) = ''B-'' @ row_tag r))
       \<and> (\<not> (\<exists>r \<in> set (ac_data_df ac m). row_start r = Text_Pointer (toks ! i) + border_start tb) \<and>
            (\<exists>r \<in> set (ac_data_df ac m). row_start r < Text_Pointer (toks ! i) + border_start tb
                \<and> Text_Pointer (toks ! i) + border_start tb < row_end r) \<longrightarrow>
            (\<exists>r \<in> set (ac_data_df ac m). row_start r < Text_Pointer (toks ! i) + border_start tb
                \<and> Text_Pointer (toks ! i) + border_start tb < row_end r
                \<and> Tag (out ! i) = ''I-'' @ row_tag r))
       \<and> (\<not> (\<exists>r \<in> set (ac_data_df ac m). row_start r = Text_Pointer (toks ! i) + border_start tb) \<and>
            \<not> (\<exists>r \<in> set (ac_data_df ac m). row_start r < Text_Pointer (toks ! i) + border_start tb
                \<and> Text_Pointer (toks ! i) + border_start tb < row_end r) \<longrightarrow>
            Tag (out ! i) = ''O'' \<and> Annotation_ID (out ! i) = ''none''
              \<and> Multi_Token_Annotation (out ! i) = 0)
       \<and> (\<forall>t. Tag (out ! i) = ''I-'' @ t \<longrightarrow>
            (\<exists>r \<in> set (ac_data_df ac m). row_start r < Text_Pointer (toks ! i) + border_start tb
                \<and> Text_Pointer (toks ! i) + border_start tb < row_end r \<and> row_tag r = t))"
proof -
  note row = create_annotated_token_tsv_row [OF assms(1,3)]
  note tg = new_iob2_tag_cases [OF assms(4), of "ac_data_df ac m" tb]
  have o: "Annotation_ID (out ! i) = ''none'' \<and> Multi_Token_Annotation (out ! i) = 0"
    if "Tag (out ! i) = ''O''"
    using that row(2) row(6) [OF assms(2)] by (simp add: row(1) row_annotation_id_def matched_def)
  have i: "\<exists>r \<in> set (ac_data_df ac m). row_start r < Text_Pointer (toks ! i) + border_start tb
                \<and> Text_Pointer (toks ! i) + border_start tb < row_end r \<and> row_tag r = t"
    if t: "Tag (out ! i) = ''I-'' @ t" for t
  proof (cases "\<exists>r \<in> set (ac_data_df ac m). row_start r = Text_Pointer (toks ! i) + border_start tb")
    case True
    from tg(1) [OF True] t show ?thesis by (auto simp: row(1))
  next
    case nb: False
    show ?thesis
    proof (cases "\<exists>r \<in> set (ac_data_df ac m). row_start r < Text_Pointer (toks ! i) + border_start tb
                \<and> Text_Pointer (toks ! i) + border_start tb < row_end r")
      case True
      from tg(2) [OF nb True] t show ?thesis by (auto simp: row(1))
    next
      case False
      from tg(3) [OF nb False] t show ?thesis by (simp add: row(1))
    qed
  qed
  show ?thesis
  proof (intro conjI impI allI)
    assume "\<exists>r \<in> set (ac_data_df ac m). row_start r = Text_Pointer (toks ! i) + border_start tb"
    from tg(1) [OF this] show "\<exists>r \<in> set (ac_data_df ac m). row_start r = Text_Pointer (toks ! i) + border_start tb
                \<and> Tag (out ! i) = ''B-'' @ row_tag r"
      by (simp add: row(1))
  next
    assume "\<not> (\<exists>r \<in> set (ac_data_df ac m). row_start r = Text_Pointer (toks ! i) + border_start tb) \<and>
            (\<exists>r \<in> set (ac_data_df ac m). row_start r < Text_Pointer (toks ! i) + border_start tb
                \<and> Text_Pointer (toks ! i) + border_start tb < row_end r)"
    then show "\<exists>r \<in> set (ac_data_df ac m). row_start r < Text_Pointer (toks ! i) + border_start tb
                \<and> Text_Pointer (toks ! i) + border_start tb < row_end r
                \<and> Tag (out ! i) = ''I-'' @ row_tag r"
      using tg(2) by (simp add: row(1))
  next
    assume a: "\<not> (\<exists>r \<in> set (ac_data_df ac m). row_start r = Text_Pointer (toks ! i) + border_start tb) \<and>
            \<not> (\<exists>r \<in> set (ac_data_df ac m). row_start r < Text_Pointer (toks ! i) + border_start tb
                \<and> Text_Pointer (toks ! i) + border_start tb < row_end r)"
    then have "Tag (out ! i) = ''O''" using tg(3) by (simp add: row(1))
    then show "Tag (out ! i) = ''O''" "Annotation_ID (out ! i) = ''none''"
      "Multi_Token_Annotation (out ! i) = 0"
      using o by simp_all
  next
    fix t assume "Tag (out ! i) = ''I-'' @ t"
    then show "\<exists>r \<in> set (ac_data_df ac m). row_start r < Text_Pointer (toks ! i) + border_start tb
                \<and> Text_Pointer (toks ! i) + border_start tb < row_end r \<and> row_tag r = t"
      by (rule i)
  qed
qed

text \<open>The token fox of the example is covered by no segment and is emitted as O.\<close>

theorem three_rule_precedence_witness:
  "create_annotated_token_tsv ex_two_token_annotation ex_tokens None True = Inr ex_two_token_table
   \<and> none_free ex_two_token_annotation \<and> (2::nat) < length ex_tokens
   \<and> \<not> py_in line_break_marker (Token (ex_tokens ! 2))
   \<and> \<not> (\<exists>r \<in> set (ac_data_df ex_two_token_annotation True).
            row_start r = Text_Pointer (ex_tokens ! 2) + border_start None)
   \<and> \<not> (\<exists>r \<in> set (ac_data_df ex_two_token_annotation True).
            row_start r < Text_Pointer (ex_tokens ! 2) + border_start None
            \<and> Text_Pointer (ex_tokens ! 2) + border_start None < row_end r)
   \<and> Tag (ex_two_token_table ! 2) = ''O'' \<and> Annotation_ID (ex_two_token_table ! 2) = ''none''
   \<and> Multi_Token_Annotation (ex_two_token_table ! 2) = 0"
proof -
  have h1: "create_annotated_token_tsv ex_two_token_annotation ex_tokens None True = Inr ex_two_token_table"
    by code_simp
  have h2: "none_free ex_two_token_annotation" by code_simp
  have h3: "(2::nat) < length ex_tokens" by code_simp
  have h4: "\<not> py_in line_break_marker (Token (ex_tokens ! 2))" by code_simp
  have h5: "\<not> (\<exists>r \<in> set (ac_data_df ex_two_token_annotation True).
            row_start r = Text_Pointer (ex_tokens ! 2) + border_start None)" by code_simp
  have h6: "\<not> (\<exists>r \<in> set (ac_data_df ex_two_token_annotation True).
            row_start r < Text_Pointer (ex_tokens ! 2) + border_start None
            \<and> Text_Pointer (ex_tokens ! 2) + border_start None < row_end r)" by code_simp
  from three_rule_precedence [OF h1 h2 h3 h4]
  have "\<not> (\<exists>r \<in> set (ac_data_df ex_two_token_annotation True).
            row_start r = Text_Pointer (ex_tokens ! 2) + border_start None) \<and>
        \<not> (\<exists>r \<in> set (ac_data_df ex_two_token_annotation True).
            row_start r < Text_Pointer (ex_tokens ! 2) + border_start None
            \<and> Text_Pointer (ex_tokens ! 2) + border_start None < row_end r) \<longrightarrow>
        Tag (ex_two_token_table ! 2) = ''O'' \<and> Annotation_ID (ex_two_token_table ! 2) = ''none''
        \<and> Multi_Token_Annotation (ex_two_token_table ! 2) = 0"
    by (elim conjE)
  with h5 h6 have c: "Tag (ex_two_token_table ! 2) = ''O'' \<and> Annotation_ID (ex_two_token_table ! 2) = ''none''
        \<and> Multi_Token_Annotation (ex_two_token_table ! 2) = 0"
    by (elim impE) (rule conjI)
  from h1 h2 h3 h4 h5 h6 c show ?thesis by (intro conjI) (elim conjE, assumption)+
qed

text \<open>
  C6. A token whose text contains the line-break marker is emitted with tag O,
  Annotation_ID ''none'' and Multi_Token_Annotation 0, whatever the segments are, and it is
  never counted: the value of a row with an identifier is the number of the tokens without
  marker that carry the identifier. (The collection has no identifier ''none''.)
\<close>

theorem line_break_token_is_outside:
  assumes "create_annotated_token_tsv ac toks tb m = Inr out" and "none_free ac"
    and "i < length toks" and "py_in line_break_marker (Token (toks ! i))"
  shows "Tag (out ! i) = ''O'' \<and> Annotation_ID (out ! i) = ''none''
       \<and> Multi_Token_Annotation (out ! i) = 0
       \<and> (\<forall>j < length toks. Annotation_ID (out ! j) \<noteq> ''none'' \<longrightarrow>
            Multi_Token_Annotation (out ! j) =
              int (length (filter (\<lambda>k. Annotation_ID (out ! k) = Annotation_ID (out ! j)
                     \<and> \<not> py_in line_break_marker (Token (toks ! k))) [0 ..< length toks])))"
proof -
  note row = create_annotated_token_tsv_row [OF assms(1)]
  have len: "length out = length toks" by (rule create_annotated_token_tsv_rows(1) [OF assms(1)])
  have lb: "Tag (out ! k) = ''O'' \<and> Annotation_ID (out ! k) = ''none''"
    if "k < length toks" and "py_in line_break_marker (Token (toks ! k))" for k
    using row(1,2) [OF that(1)] that(2)
    by (simp add: new_iob2_tag_line_break row_annotation_id_def matched_def)
  have count: "Multi_Token_Annotation (out ! j) =
      int (length (filter (\<lambda>k. Annotation_ID (out ! k) = Annotation_ID (out ! j)
             \<and> \<not> py_in line_break_marker (Token (toks ! k))) [0 ..< length toks]))"
    if j: "j < length toks" and a: "Annotation_ID (out ! j) \<noteq> ''none''" for j
  proof -
    have "filter (\<lambda>k. Annotation_ID (out ! k) = Annotation_ID (out ! j)
             \<and> \<not> py_in line_break_marker (Token (toks ! k))) [0 ..< length toks]
        = filter (\<lambda>k. Annotation_ID (out ! k) = Annotation_ID (out ! j)) [0 ..< length out]"
      unfolding len using lb a by (intro filter_cong) auto
    then show ?thesis
      using row(6) [OF j assms(2)] a
      by (simp add: count_list_Annotation_ID length_filter_nth [of _ out])
  qed
  from lb [OF assms(3,4)] row(6) [OF assms(3,2)] count show ?thesis by simp
qed

text \<open>A line break inside the annotated range of the example.\<close>

theorem line_break_token_is_outside_witness:
  "create_annotated_token_tsv ex_two_token_annotation ex_line_break_tokens None True
     = Inr ex_line_break_table
   \<and> none_free ex_two_token_annotation \<and> (1::nat) < length ex_line_break_tokens
   \<and> py_in line_break_marker (Token (ex_line_break_tokens ! 1))
   \<and> Tag (ex_line_break_table ! 1) = ''O'' \<and> Annotation_ID (ex_line_break_table ! 1) = ''none''
   \<and> Multi_Token_Annotation (ex_line_break_table ! 1) = 0"
proof -
  have h1: "create_annotated_token_tsv ex_two_token_annotation ex_line_break_tokens None True
     = Inr ex_line_break_table" by code_simp
  have h2: "none_free ex_two_token_annotation" by code_simp
  have h3: "(1::nat) < length ex_line_break_tokens" by code_simp
  have h4: "py_in line_break_marker (Token (ex_line_break_tokens ! 1))" by code_simp
  note t = line_break_token_is_outside [OF h1 h2 h3 h4]
  from h1 h2 h3 h4 t [THEN conjunct1] t [THEN conjunct2, THEN conjunct1]
    t [THEN conjunct2, THEN conjunct2, THEN conjunct1]
  show ?thesis by (intro conjI)
qed

text \<open>
  Where the two columns of a matched token come from: the tag from the first row, in the
  order of the collection, whose segment starts at the offset; the identifier from the
  first row whose segment covers the offset.
\<close>

lemma find_filter_hd:
  "List.find P xs = (case filter P xs of [] \<Rightarrow> None | x # _ \<Rightarrow> Some x)"
  by (induction xs) auto

lemma first_match_supplies_the_tag:
  assumes "\<not> py_in line_break_marker (Token row)"
    and "List.find (\<lambda>r. row_start r = Text_Pointer row + border_start tb) df = Some r"
  shows "new_iob2_tag df tb row = ''B-'' @ row_tag r"
  using assms
  by (auto simp: new_iob2_tag_def filtered_row_df_beginning_def find_filter_hd split: list.splits)

lemma first_cover_supplies_the_id:
  assumes "create_annotated_token_tsv ac toks tb m = Inr out" and "i < length toks"
    and "matched (toks ! i, Tag (out ! i))"
    and "List.find (\<lambda>r. row_start r \<le> Text_Pointer (toks ! i) + border_start tb
                        \<and> Text_Pointer (toks ! i) + border_start tb < row_end r)
           (ac_data_df ac m) = Some r"
  shows "Annotation_ID (out ! i) = annotation_id_of (data_id (ac ! row_label r))"
proof -
  have f: "filtered_row_df (ac_data_df ac m) tb (toks ! i)
      = filter (\<lambda>r. row_start r \<le> Text_Pointer (toks ! i) + border_start tb
                        \<and> Text_Pointer (toks ! i) + border_start tb < row_end r) (ac_data_df ac m)"
    unfolding filtered_row_df_def by (rule filter_cong) auto
  from assms(4) have "hd (filtered_row_df (ac_data_df ac m) tb (toks ! i)) = r"
    by (simp add: f find_filter_hd split: list.splits)
  with create_annotated_token_tsv_row(1,2) [OF assms(1,2)] assms(3) show ?thesis
    by (simp add: row_annotation_id_def)
qed

text \<open>
  C2 fails on the code. The token red starts the second annotation and lies inside the
  first: its tag is B- with the class of the second annotation, and its Annotation_ID is
  the identifier of the first.
\<close>

theorem tag_and_id_from_different_annotations:
  "create_annotated_token_tsv ex_overlapping_annotations ex_tokens None True
     = Inr ex_overlapping_table
   \<and> Tag (ex_overlapping_table ! 1) = ''B-'' @ tag (ex_overlapping_annotations ! 1)
   \<and> Annotation_ID (ex_overlapping_table ! 1)
       = annotation_id_of (data_id (ex_overlapping_annotations ! 0))
   \<and> Annotation_ID (ex_overlapping_table ! 1)
       \<noteq> annotation_id_of (data_id (ex_overlapping_annotations ! 1))"
  by code_simp

text \<open>
  C5 fails on the code. A segment of length zero at the offset of the token red gives the
  token the tag B-Color in the first loop; the second loop then finds no row for it and
  the run ends with \<open>IndexError\<close>. Without the segment the table is written, all O.
\<close>

theorem zero_length_segment_tags_then_fails:
  "new_iob2_tags (ac_data_df ex_zero_length_annotation True) None ex_tokens
     = [''O'', ''B-Color'', ''O'']
   \<and> create_annotated_token_tsv ex_zero_length_annotation ex_tokens None True = Inl IndexError
   \<and> create_annotated_token_tsv [] ex_tokens None True = Inr ex_untagged_table"
  by code_simp

section \<open>Properties of the token tables\<close>

lemma py_replace_char:
  "py_replace [c] rep s = concat (map (\<lambda>x. if x = c then rep else [x]) s)"
  by (induction s) auto

lemma escape_token_concat:
  "escape_token s = concat (map (\<lambda>x. if x = newline then line_break_marker else [x]) s)"
  by (simp add: escape_token_def py_replace_char)

lemma newline_notin_marker: "newline \<notin> set line_break_marker"
  by (simp add: newline_def line_break_marker_def backslash_def)

lemma escape_token_no_newline: "newline \<notin> set (escape_token s)"
  using newline_notin_marker by (auto simp: escape_token_concat)

lemma escape_token_id: "newline \<notin> set s \<Longrightarrow> escape_token s = s"
  by (induction s) (auto simp: escape_token_concat)

lemma escape_token_fixed_iff: "escape_token s = s \<longleftrightarrow> newline \<notin> set s"
  using escape_token_id escape_token_no_newline by metis

lemma basic_token_table_tokens:
  "basic_token_table (\<lambda>_. x) [] None = map (\<lambda>r. r\<lparr>Token := escape_token (Token r)\<rparr>) x"
  by (simp add: basic_token_table_def selected_text_def)

lemma token_update_fixed_iff:
  "r\<lparr>Token := escape_token (Token r)\<rparr> = r \<longleftrightarrow> newline \<notin> set (Token r)"
proof -
  have "r\<lparr>Token := escape_token (Token r)\<rparr> = r \<longleftrightarrow> escape_token (Token r) = Token r"
    by (cases r) auto
  then show ?thesis by (simp add: escape_token_fixed_iff)
qed

lemma escaped_table_fixed_iff:
  "map (\<lambda>r. r\<lparr>Token := escape_token (Token r)\<rparr>) x = x
     \<longleftrightarrow> (\<forall>r \<in> set x. newline \<notin> set (Token r))"
proof -
  have "map (\<lambda>r. r\<lparr>Token := escape_token (Token r)\<rparr>) x = x
      \<longleftrightarrow> (\<forall>r \<in> set x. r\<lparr>Token := escape_token (Token r)\<rparr> = r)"
    by (simp add: map_idI list_eq_iff_nth_eq all_set_conv_all_nth)
  then show ?thesis by (simp add: token_update_fixed_iff)
qed

text \<open>
  C4 as stated fails: the token that is a newline character and the token of the two
  characters backslash and n are written as the same basic table, so no reading returns
  both; even when pandas returns every table as it was given, the newline token is read
  back as the other one, and the annotated tables of the two are the same as well.
\<close>

theorem round_trip_counterexample:
  "basic_token_table (\<lambda>_. ex_newline_token) [] None
     = basic_token_table (\<lambda>_. ex_backslash_n_token) [] None
   \<and> ex_newline_token \<noteq> ex_backslash_n_token
   \<and> read_token_table (\<lambda>file. file) (write_basic_token_table (\<lambda>table. table) ex_newline_token)
       = ex_backslash_n_token
   \<and> create_annotated_token_tsv []
        (read_token_table (\<lambda>file. file) (write_basic_token_table (\<lambda>table. table) ex_newline_token))
        None True
       = create_annotated_token_tsv []
        (read_token_table (\<lambda>file. file) (write_basic_token_table (\<lambda>table. table) ex_backslash_n_token))
        None True"
  by code_simp

text \<open>
  C4 (as amended). Whenever pandas returns the basic table as it was given: reading back a
  written basic table gives the token sequence with every newline character of a token
  text replaced by the two characters backslash and n, and reading does not undo the
  replacement; the result is the sequence itself exactly when no token text contains a
  newline character; no text read back contains a newline character. The annotated table
  is written with no escaping and read with no conversion: whenever pandas returns it as
  it was given, it is read back as \<open>create_annotated_token_tsv\<close> returned it, and its columns
  Token_ID, Text_Pointer and Token are those of the basic table that was read, the token
  texts in their escaped form.
\<close>

theorem token_tables_round_trip:
  assumes "read_csv (to_csv (basic_token_table (\<lambda>_. x) [] None)) = basic_token_table (\<lambda>_. x) [] None"
  shows "read_token_table read_csv (write_basic_token_table to_csv x)
           = map (\<lambda>r. r\<lparr>Token := escape_token (Token r)\<rparr>) x
       \<and> (read_token_table read_csv (write_basic_token_table to_csv x) = x
            \<longleftrightarrow> (\<forall>r \<in> set x. newline \<notin> set (Token r)))
       \<and> (\<forall>r \<in> set (read_token_table read_csv (write_basic_token_table to_csv x)).
            newline \<notin> set (Token r))
       \<and> (create_annotated_token_tsv ac
              (read_token_table read_csv (write_basic_token_table to_csv x)) tb m = Inr out
            \<and> read_csv' (to_csv' out) = out \<longrightarrow>
            read_annotated_token_table read_csv' (write_annotated_token_table to_csv' out) = out
            \<and> map Token out = map (\<lambda>r. escape_token (Token r)) x
            \<and> map Token_ID out = map Token_ID x
            \<and> map Text_Pointer out = map Text_Pointer x)"
proof -
  let ?t = "map (\<lambda>r. r\<lparr>Token := escape_token (Token r)\<rparr>) x"
  have rw: "read_token_table read_csv (write_basic_token_table to_csv x) = ?t"
    using assms
    by (simp add: read_token_table_def write_basic_token_table_def create_basic_token_tsv_def
        basic_token_table_tokens)
  have ann: "read_annotated_token_table read_csv' (write_annotated_token_table to_csv' out) = out
        \<and> map Token out = map (\<lambda>r. escape_token (Token r)) x
        \<and> map Token_ID out = map Token_ID x
        \<and> map Text_Pointer out = map Text_Pointer x"
    if c: "create_annotated_token_tsv ac ?t tb m = Inr out" and l: "read_csv' (to_csv' out) = out"
  proof -
    note r = create_annotated_token_tsv_rows [OF c]
    from r(4) have "map Token out = map (\<lambda>r. escape_token (Token r)) x" by (simp add: comp_def)
    moreover from r(6) have "map Token_ID out = map Token_ID x" by (simp add: comp_def)
    moreover from r(5) have "map Text_Pointer out = map Text_Pointer x" by (simp add: comp_def)
    moreover from l have "read_annotated_token_table read_csv' (write_annotated_token_table to_csv' out) = out"
      by (simp add: read_annotated_token_table_def write_annotated_token_table_def)
    ultimately show ?thesis by simp
  qed
  show ?thesis
    unfolding rw
  proof (intro conjI impI)
    show "?t = ?t" by simp
    show "?t = x \<longleftrightarrow> (\<forall>r \<in> set x. newline \<notin> set (Token r))"
      by (rule escaped_table_fixed_iff)
    show "\<forall>r \<in> set ?t. newline \<notin> set (Token r)"
      by (simp add: escape_token_no_newline)
  next
    assume a: "create_annotated_token_tsv ac ?t tb m = Inr out \<and> read_csv' (to_csv' out) = out"
    then have c: "create_annotated_token_tsv ac ?t tb m = Inr out"
      and l: "read_csv' (to_csv' out) = out" by simp_all
    from ann [OF c l]
    show "read_annotated_token_table read_csv' (write_annotated_token_table to_csv' out) = out"
      "map Token out = map (\<lambda>r. escape_token (Token r)) x"
      "map Token_ID out = map Token_ID x"
      "map Text_Pointer out = map Text_Pointer x"
      by simp_all
  qed
qed

text \<open>
  The three tokens of the example contain no newline; with a file that is the table
  itself, both tables are read back as written.
\<close>

theorem token_tables_round_trip_witness:
  "read_token_table (\<lambda>file. file) (write_basic_token_table (\<lambda>table. table) ex_tokens) = ex_tokens
   \<and> read_annotated_token_table (\<lambda>file. file)
        (write_annotated_token_table (\<lambda>table. table) ex_two_token_table) = ex_two_token_table
   \<and> map Token ex_two_token_table = map (\<lambda>r. escape_token (Token r)) ex_tokens"
proof -
  have h: "(\<lambda>file. file) ((\<lambda>table. table) (basic_token_table (\<lambda>_. ex_tokens) [] None))
      = basic_token_table (\<lambda>_. ex_tokens) [] None"
    by simp
  note t = token_tables_round_trip [of "\<lambda>file. file" "\<lambda>table. table" ex_tokens
      ex_two_token_annotation None True ex_two_token_table "\<lambda>file. file" "\<lambda>table. table", OF h]
  have n: "\<forall>r \<in> set ex_tokens. newline \<notin> set (Token r)" by code_simp
  from t [THEN conjunct2, THEN conjunct1] n
  have b: "read_token_table (\<lambda>file. file) (write_basic_token_table (\<lambda>table. table) ex_tokens) = ex_tokens"
    by (rule iffD2)
  have c: "create_annotated_token_tsv ex_two_token_annotation ex_tokens None True = Inr ex_two_token_table"
    by code_simp
  have l: "(\<lambda>file. file) ((\<lambda>table. table) ex_two_token_table) = ex_two_token_table" by simp
  from t [THEN conjunct2, THEN conjunct2, THEN conjunct2] b c l
  have "read_annotated_token_table (\<lambda>file. file)
        (write_annotated_token_table (\<lambda>table. table) ex_two_token_table) = ex_two_token_table
      \<and> map Token ex_two_token_table = map (\<lambda>r. escape_token (Token r)) ex_tokens"
    by simp
  with b show ?thesis by simp
qed

section \<open>Properties of the text window\<close>

text \<open>
  C9 as stated fails: a start of -2 selects the last two characters, a start of 0 the whole
  text.
\<close>

theorem negative_start_counterexample:
  "selected_text ''abcdef'' (Some (- 2, 6)) = ''ef''
   \<and> selected_text ''abcdef'' (Some (clamp_offset 6 (- 2), clamp_offset 6 6)) = ''abcdef''
   \<and> selected_text ''abcdef'' (Some (- 2, 6))
       \<noteq> selected_text ''abcdef'' (Some (clamp_offset 6 (- 2), clamp_offset 6 6))"
  by code_simp

lemma slice_bound_clamp: "0 \<le> v \<Longrightarrow> slice_bound L (clamp_offset L v) = slice_bound L v"
  by (auto simp: slice_bound_def clamp_offset_def)

lemma slice_bound_from_end: "v < 0 \<Longrightarrow> slice_bound L (max 0 (int L + v)) = slice_bound L v"
  by (auto simp: slice_bound_def)

lemma slice_bound_fixed: "0 \<le> v \<Longrightarrow> v \<le> int L \<Longrightarrow> slice_bound L v = nat v"
  by (auto simp: slice_bound_def)

text \<open>
  C9 (as amended). For a window without negative value the selected text is the one of the
  window with both values clamped to the range from 0 to the length. A negative value
  counts from the end of the text: it selects as the value length + value does, or as 0
  when that is negative. A window inside the text selects its characters.
\<close>

theorem text_window_selection:
  "(0 \<le> a \<and> 0 \<le> b \<longrightarrow>
      selected_text t (Some (a, b))
        = selected_text t (Some (clamp_offset (length t) a, clamp_offset (length t) b)))
   \<and> (a < 0 \<longrightarrow>
      selected_text t (Some (a, b)) = selected_text t (Some (max 0 (int (length t) + a), b)))
   \<and> (b < 0 \<longrightarrow>
      selected_text t (Some (a, b)) = selected_text t (Some (a, max 0 (int (length t) + b))))
   \<and> (0 \<le> a \<and> a \<le> b \<and> b \<le> int (length t) \<longrightarrow>
      selected_text t (Some (a, b)) = take (nat (b - a)) (drop (nat a) t))"
proof (intro conjI impI)
  assume "0 \<le> a \<and> 0 \<le> b"
  then show "selected_text t (Some (a, b))
        = selected_text t (Some (clamp_offset (length t) a, clamp_offset (length t) b))"
    by (simp add: selected_text_def py_slice_def slice_bound_clamp)
next
  assume "a < 0"
  then show "selected_text t (Some (a, b)) = selected_text t (Some (max 0 (int (length t) + a), b))"
    by (simp add: selected_text_def py_slice_def slice_bound_from_end)
next
  assume "b < 0"
  then show "selected_text t (Some (a, b)) = selected_text t (Some (a, max 0 (int (length t) + b)))"
    by (simp add: selected_text_def py_slice_def slice_bound_from_end)
next
  assume "0 \<le> a \<and> a \<le> b \<and> b \<le> int (length t)"
  then show "selected_text t (Some (a, b)) = take (nat (b - a)) (drop (nat a) t)"
    by (simp add: selected_text_def py_slice_def slice_bound_fixed nat_diff_distrib Let_def)
qed

text \<open>An end beyond the text, and a negative start.\<close>

theorem text_window_selection_witness:
  "(0::int) \<le> 2 \<and> (0::int) \<le> 60 \<and> (- 2::int) < 0
   \<and> selected_text ''abcdef'' (Some (2, 60))
       = selected_text ''abcdef'' (Some (clamp_offset (length ''abcdef'') 2, clamp_offset (length ''abcdef'') 60))
   \<and> selected_text ''abcdef'' (Some (- 2, 60))
       = selected_text ''abcdef'' (Some (max 0 (int (length ''abcdef'') + - 2), 60))"
proof -
  have h1: "(0::int) \<le> 2 \<and> (0::int) \<le> 60" by simp
  have h2: "(- 2::int) < 0" by simp
  note t1 = text_window_selection [of 2 60 "''abcdef''", THEN conjunct1, THEN mp, OF h1]
  note t2 = text_window_selection [of "- 2" 60 "''abcdef''", THEN conjunct2, THEN conjunct1, THEN mp, OF h2]
  from h1 h2 t1 t2 show ?thesis by (intro conjI) (elim conjE, assumption)+
qed

section \<open>Properties of the document builder\<close>

text \<open>
  What a replacement does: a text without the pattern is unchanged, and the first
  occurrence is replaced and the rest of the text treated in the same way.
\<close>

lemma py_replace_no_occurrence:
  "pat \<noteq> [] \<Longrightarrow> \<not> py_in pat s \<Longrightarrow> py_replace pat rep s = s"
  by (induction s) auto

lemma py_replace_at_occurrence:
  "pat \<noteq> [] \<Longrightarrow> py_replace pat rep (pat @ b) = rep @ py_replace pat rep b"
  by (cases pat) auto

lemma prefix_of_long_prefix:
  assumes "prefix p (u @ v)" and "length p \<le> length u"
  shows "prefix p u"
  using assms by (auto simp: prefix_append)

lemma py_replace_first_occurrence:
  "pat \<noteq> [] \<Longrightarrow> \<not> py_in pat (a @ butlast pat) \<Longrightarrow>
   py_replace pat rep (a @ pat @ b) = a @ rep @ py_replace pat rep b"
proof (induction a)
  case Nil
  then show ?case by (simp add: py_replace_at_occurrence)
next
  case (Cons x a)
  from Cons.prems(2) have np: "\<not> prefix pat (x # a @ butlast pat)"
    and ni: "\<not> py_in pat (a @ butlast pat)"
    by simp_all
  have "\<not> prefix pat (x # a @ pat @ b)"
  proof
    assume "prefix pat (x # a @ pat @ b)"
    moreover have "x # a @ pat @ b = (x # a @ butlast pat) @ (last pat # b)"
      using Cons.prems(1) by simp
    moreover have "length pat \<le> length (x # a @ butlast pat)" by simp
    ultimately have "prefix pat (x # a @ butlast pat)"
      using prefix_of_long_prefix by metis
    with np show False ..
  qed
  with Cons.prems(1) Cons.IH [OF Cons.prems(1) ni] show ?case by simp
qed

lemma list_all_upt_iff: "list_all P [Suc j ..< k] \<longleftrightarrow> (\<forall>l. j < l \<and> l < k \<longrightarrow> P l)"
  by (simp add: list_all_iff Ball_def Suc_le_eq)

lemma list_all_upt_Suc_iff:
  "list_all P [Suc j ..< Suc i] \<longleftrightarrow> (\<forall>l. j < l \<and> l \<le> i \<longrightarrow> P l)"
  by (simp only: list_all_upt_iff less_Suc_eq_le)

lemma list_ex_upt_iff: "list_ex P [0 ..< k] \<longleftrightarrow> (\<exists>j < k. P j)"
  by (simp add: list_ex_iff Bex_def)

lemma span_open_after_iff:
  "span_open_after ip table k \<longleftrightarrow>
     (\<exists>j < k. opens_span (table ! j) \<and> (\<forall>l. j < l \<and> l < k \<longrightarrow> \<not> resets_span ip table l))"
  by (simp add: span_open_after_def list_all_upt_iff list_ex_upt_iff)

lemma span_open_iff_ex:
  "span_open ip table i \<longleftrightarrow>
     (\<exists>j < i. opens_span (table ! j) \<and> (\<forall>l. j < l \<and> l \<le> i \<longrightarrow> \<not> resets_span ip table l))"
  by (simp only: span_open_def list_all_upt_Suc_iff list_ex_upt_iff)

lemma span_open_after_0: "\<not> span_open_after ip table 0"
  by (simp add: span_open_after_iff)

lemma span_open_after_Suc:
  "span_open_after ip table (Suc k) \<longleftrightarrow>
     opens_span (table ! k) \<or> (span_open_after ip table k \<and> \<not> resets_span ip table k)"
proof
  assume "span_open_after ip table (Suc k)"
  then obtain j where j: "j < Suc k" "opens_span (table ! j)"
    and n: "\<forall>l. j < l \<and> l < Suc k \<longrightarrow> \<not> resets_span ip table l"
    by (auto simp: span_open_after_iff)
  show "opens_span (table ! k) \<or> (span_open_after ip table k \<and> \<not> resets_span ip table k)"
  proof (cases "j = k")
    case True
    with j show ?thesis by simp
  next
    case False
    with j have "j < k" by simp
    with j n have "span_open_after ip table k" "\<not> resets_span ip table k"
      by (auto simp: span_open_after_iff)
    then show ?thesis by simp
  qed
next
  assume "opens_span (table ! k) \<or> (span_open_after ip table k \<and> \<not> resets_span ip table k)"
  then show "span_open_after ip table (Suc k)"
  proof
    assume "opens_span (table ! k)"
    then show ?thesis unfolding span_open_after_iff by (intro exI [of _ k]) auto
  next
    assume a: "span_open_after ip table k \<and> \<not> resets_span ip table k"
    then obtain j where j: "j < k" "opens_span (table ! j)"
      and n: "\<forall>l. j < l \<and> l < k \<longrightarrow> \<not> resets_span ip table l"
      by (auto simp: span_open_after_iff)
    have "\<forall>l. j < l \<and> l < Suc k \<longrightarrow> \<not> resets_span ip table l"
      using n a by (auto simp: less_Suc_eq)
    with j show ?thesis unfolding span_open_after_iff by (intro exI [of _ j]) simp
  qed
qed

lemma span_open_iff:
  "span_open ip table i \<longleftrightarrow> span_open_after ip table i \<and> \<not> resets_span ip table i"
proof
  assume "span_open ip table i"
  then obtain j where j: "j < i" "opens_span (table ! j)"
    and n: "\<forall>l. j < l \<and> l \<le> i \<longrightarrow> \<not> resets_span ip table l"
    by (auto simp: span_open_iff_ex)
  then show "span_open_after ip table i \<and> \<not> resets_span ip table i"
    unfolding span_open_after_iff by auto
next
  assume a: "span_open_after ip table i \<and> \<not> resets_span ip table i"
  then obtain j where j: "j < i" "opens_span (table ! j)"
    and n: "\<forall>l. j < l \<and> l < i \<longrightarrow> \<not> resets_span ip table l"
    by (auto simp: span_open_after_iff)
  have "\<forall>l. j < l \<and> l \<le> i \<longrightarrow> \<not> resets_span ip table l"
    using n a by (auto simp: le_less)
  with j show "span_open ip table i" unfolding span_open_iff_ex by auto
qed

text \<open>A token that continues a span is no paragraph boundary, except as the first row.\<close>

lemma continues_span_open:
  assumes "continues_span (table ! i)"
  shows "span_open ip table i \<longleftrightarrow> span_open_after ip table i"
proof (cases "i = 0")
  case True
  then show ?thesis by (simp add: span_open_iff span_open_after_0)
next
  case False
  with assms have "\<not> resets_span ip table i"
    by (simp add: resets_span_def paragraph_boundary_def continues_span_def content_token_def)
  then show ?thesis by (simp add: span_open_iff)
qed

lemma body_loop_append:
  "body_loop table ip tc (xs @ ys) s =
     (case body_loop table ip tc xs s of Inl e \<Rightarrow> Inl e | Inr s' \<Rightarrow> body_loop table ip tc ys s')"
  by (induction xs arbitrary: s) (auto split: sum.splits)

lemma body_loop_snoc:
  "body_loop table ip tc (xs @ [k]) s =
     (case body_loop table ip tc xs s of
        Inl e \<Rightarrow> Inl e
      | Inr s' \<Rightarrow> body_step table ip tc k s')"
  by (simp add: body_loop_append split: sum.splits)

lemma open_paragraph_fields:
  "last_sibling_element (open_paragraph idx s) = None"
  "paragraph_list (open_paragraph idx s) = py_insert idx (length (store s)) (paragraph_list s)"
  by (simp_all add: open_paragraph_def SubElement_def)

lemma py_insert_not_Nil: "py_insert i x xs \<noteq> []"
  by (simp add: py_insert_def)

lemma paragraph_step_result:
  assumes "ip \<longrightarrow> tc = ''eltec-deu''"
  shows "paragraph_step ip tc idx (table ! idx) s =
           Inr (if resets_span ip table idx then open_paragraph idx s else s)"
  using assms
  by (auto simp: paragraph_step_def paragraph_recognition_def resets_span_def paragraph_boundary_def)

text \<open>What the second half of a round does to the two variables.\<close>

lemma token_step_cases:
  assumes "ip \<longrightarrow> paragraph_list s \<noteq> []"
  shows "(continues_span row \<and> last_sibling_element s = None
            \<longrightarrow> token_step table ip idx row s = Inl AttributeError)
       \<and> (\<not> (continues_span row \<and> last_sibling_element s = None)
            \<longrightarrow> (\<exists>s'. token_step table ip idx row s = Inr s'
                  \<and> paragraph_list s' = paragraph_list s
                  \<and> (last_sibling_element s' \<noteq> None
                       \<longleftrightarrow> opens_span row \<or> last_sibling_element s \<noteq> None)))"
proof -
  from assms have "\<exists>parent. current_parent ip s = Inr parent"
    by (cases ip) (simp_all add: current_parent_def)
  then obtain parent where p: "current_parent ip s = Inr parent" ..
  show ?thesis
    by (auto simp: token_step_def continues_span_def opens_span_def content_token_def p
        split: option.splits prod.splits)
qed

lemma body_step_spans:
  assumes tc: "ip \<longrightarrow> tc = ''eltec-deu''"
    and inv: "last_sibling_element s \<noteq> None \<longleftrightarrow> span_open_after ip table k"
    and pl: "ip \<and> 0 < k \<longrightarrow> paragraph_list s \<noteq> []"
  shows "(continues_span (table ! k) \<and> \<not> span_open ip table k
            \<longrightarrow> body_step table ip tc k s = Inl AttributeError)
       \<and> (\<not> (continues_span (table ! k) \<and> \<not> span_open ip table k)
            \<longrightarrow> (\<exists>s'. body_step table ip tc k s = Inr s'
                  \<and> (last_sibling_element s' \<noteq> None \<longleftrightarrow> span_open_after ip table (Suc k))
                  \<and> (ip \<longrightarrow> paragraph_list s' \<noteq> [])))"
proof -
  let ?s1 = "if resets_span ip table k then open_paragraph k s else s"
  have ps: "paragraph_step ip tc k (table ! k) s = Inr ?s1"
    by (rule paragraph_step_result [OF tc])
  have l1: "last_sibling_element ?s1 \<noteq> None \<longleftrightarrow> span_open ip table k"
    using inv by (simp add: span_open_iff open_paragraph_fields)
  have p1: "ip \<longrightarrow> paragraph_list ?s1 \<noteq> []"
  proof
    assume ip
    show "paragraph_list ?s1 \<noteq> []"
    proof (cases "resets_span ip table k")
      case True
      then show ?thesis by (simp add: open_paragraph_fields py_insert_not_Nil)
    next
      case False
      with \<open>ip\<close> have "0 < k" by (auto simp: resets_span_def paragraph_boundary_def)
      with pl \<open>ip\<close> False show ?thesis by simp
    qed
  qed
  note ts = token_step_cases [OF p1, of "table ! k" table k]
  have bs: "body_step table ip tc k s = token_step table ip k (table ! k) ?s1"
    by (simp add: body_step_def ps)
  show ?thesis
  proof (intro conjI impI)
    assume "continues_span (table ! k) \<and> \<not> span_open ip table k"
    with l1 have "continues_span (table ! k) \<and> last_sibling_element ?s1 = None" by blast
    with ts show "body_step table ip tc k s = Inl AttributeError" unfolding bs by blast
  next
    assume "\<not> (continues_span (table ! k) \<and> \<not> span_open ip table k)"
    with l1 have "\<not> (continues_span (table ! k) \<and> last_sibling_element ?s1 = None)" by blast
    with ts obtain s' where s': "token_step table ip k (table ! k) ?s1 = Inr s'"
      and pp: "paragraph_list s' = paragraph_list ?s1"
      and ll: "last_sibling_element s' \<noteq> None
                 \<longleftrightarrow> opens_span (table ! k) \<or> last_sibling_element ?s1 \<noteq> None"
      by blast
    from ll l1 have "last_sibling_element s' \<noteq> None \<longleftrightarrow> span_open_after ip table (Suc k)"
      by (simp add: span_open_after_Suc span_open_iff)
    with s' pp p1 show "\<exists>s'. body_step table ip tc k s = Inr s'
        \<and> (last_sibling_element s' \<noteq> None \<longleftrightarrow> span_open_after ip table (Suc k))
        \<and> (ip \<longrightarrow> paragraph_list s' \<noteq> [])"
      unfolding bs by simp
  qed
qed

lemma body_loop_spans:
  assumes tc: "ip \<longrightarrow> tc = ''eltec-deu''"
  shows "((\<forall>i < k. continues_span (table ! i) \<longrightarrow> span_open ip table i) \<longrightarrow>
           (\<exists>s. body_loop table ip tc [0 ..< k] initial_state = Inr s
              \<and> (last_sibling_element s \<noteq> None \<longleftrightarrow> span_open_after ip table k)
              \<and> (ip \<and> 0 < k \<longrightarrow> paragraph_list s \<noteq> [])))
       \<and> (\<not> (\<forall>i < k. continues_span (table ! i) \<longrightarrow> span_open ip table i) \<longrightarrow>
           body_loop table ip tc [0 ..< k] initial_state = Inl AttributeError)"
proof (induction k)
  case 0
  show ?case by (simp add: initial_state_def span_open_after_0)
next
  case (Suc k)
  let ?ok = "\<lambda>k. \<forall>i < k. continues_span (table ! i) \<longrightarrow> span_open ip table i"
  have ok_Suc: "?ok (Suc k) \<longleftrightarrow> ?ok k \<and> (continues_span (table ! k) \<longrightarrow> span_open ip table k)"
    by (auto simp: less_Suc_eq)
  show ?case
  proof (cases "?ok k")
    case False
    with Suc have "body_loop table ip tc [0 ..< k] initial_state = Inl AttributeError" by blast
    then have "body_loop table ip tc [0 ..< Suc k] initial_state = Inl AttributeError"
      by (simp add: body_loop_snoc)
    with False ok_Suc show ?thesis by blast
  next
    case True
    with Suc obtain s where s: "body_loop table ip tc [0 ..< k] initial_state = Inr s"
      and inv: "last_sibling_element s \<noteq> None \<longleftrightarrow> span_open_after ip table k"
      and pl: "ip \<and> 0 < k \<longrightarrow> paragraph_list s \<noteq> []"
      by blast
    have step: "body_loop table ip tc [0 ..< Suc k] initial_state = body_step table ip tc k s"
      by (simp add: body_loop_snoc s)
    note bs = body_step_spans [OF tc inv pl]
    show ?thesis
    proof (cases "continues_span (table ! k) \<and> \<not> span_open ip table k")
      case bad: True
      with bs have "body_step table ip tc k s = Inl AttributeError" by blast
      with bad ok_Suc step show ?thesis by auto
    next
      case good: False
      with bs obtain s' where "body_step table ip tc k s = Inr s'"
        and "last_sibling_element s' \<noteq> None \<longleftrightarrow> span_open_after ip table (Suc k)"
        and "ip \<longrightarrow> paragraph_list s' \<noteq> []"
        by blast
      with good True ok_Suc step show ?thesis by auto
    qed
  qed
qed

lemma spans_well_formed_iff:
  "spans_well_formed ip table \<longleftrightarrow>
     (\<forall>i < length table. continues_span (table ! i) \<longrightarrow> span_open ip table i)"
  by (simp add: spans_well_formed_def list_all_iff Ball_def)

text \<open>With paragraphs and an unknown text class the loop ends at the second row.\<close>

lemma body_loop_unknown_text_class:
  assumes "text_class \<noteq> ''eltec-deu''"
  shows "(continues_span (table ! 0) \<and> 0 < n \<longrightarrow>
            body_loop table True text_class [0 ..< n] initial_state = Inl AttributeError)
       \<and> (\<not> continues_span (table ! 0) \<and> 1 < n \<longrightarrow>
            body_loop table True text_class [0 ..< n] initial_state = Inl KeyError)
       \<and> (\<not> continues_span (table ! 0) \<and> n \<le> 1 \<longrightarrow>
            (\<exists>s. body_loop table True text_class [0 ..< n] initial_state = Inr s))"
proof -
  let ?s1 = "open_paragraph 0 initial_state"
  have ps: "paragraph_step True text_class 0 (table ! 0) initial_state = Inr ?s1"
    by (simp add: paragraph_step_def)
  have p1: "True \<longrightarrow> paragraph_list ?s1 \<noteq> []"
    by (simp add: open_paragraph_fields py_insert_not_Nil)
  have l1: "last_sibling_element ?s1 = None" by (simp add: open_paragraph_fields)
  note ts = token_step_cases [OF p1, of "table ! 0" table 0]
  have b0: "body_step table True text_class 0 initial_state = token_step table True 0 (table ! 0) ?s1"
    by (simp add: body_step_def ps)
  have key: "body_step table True text_class (Suc 0) s = Inl KeyError" for s
    using assms by (simp add: body_step_def paragraph_step_def paragraph_recognition_def)
  show ?thesis
  proof (intro conjI impI)
    assume a: "continues_span (table ! 0) \<and> 0 < n"
    with ts l1 have "body_step table True text_class 0 initial_state = Inl AttributeError"
      unfolding b0 by blast
    moreover from a have "[0 ..< n] = 0 # [Suc 0 ..< n]" by (simp add: upt_conv_Cons)
    ultimately show "body_loop table True text_class [0 ..< n] initial_state = Inl AttributeError"
      by simp
  next
    assume a: "\<not> continues_span (table ! 0) \<and> 1 < n"
    with ts obtain s' where "body_step table True text_class 0 initial_state = Inr s'"
      unfolding b0 by blast
    moreover from a have "[0 ..< n] = 0 # Suc 0 # [Suc (Suc 0) ..< n]" by (simp add: upt_conv_Cons)
    ultimately show "body_loop table True text_class [0 ..< n] initial_state = Inl KeyError"
      by (simp add: key)
  next
    assume a: "\<not> continues_span (table ! 0) \<and> n \<le> 1"
    with ts obtain s' where s': "body_step table True text_class 0 initial_state = Inr s'"
      unfolding b0 by blast
    from a have "n = 0 \<or> n = 1" by auto
    then show "\<exists>s. body_loop table True text_class [0 ..< n] initial_state = Inr s"
      using s' by auto
  qed
qed

lemma spans_well_formed_first_row:
  "spans_well_formed ip table \<Longrightarrow> 0 < length table \<Longrightarrow> \<not> continues_span (table ! 0)"
  by (auto simp: spans_well_formed_iff span_open_iff span_open_after_0)

lemma spans_well_formed_short:
  "length table \<le> 1 \<Longrightarrow> \<not> continues_span (table ! 0) \<Longrightarrow> spans_well_formed ip table"
  by (auto simp: spans_well_formed_iff le_Suc_eq)

text \<open>
  C10. When every I-tagged content token of the table is preceded, since the most recent
  paragraph boundary, by a B-tagged content token, the loop never reads a missing span:
  \<open>create_annotated_tei\<close> does not end in \<open>AttributeError\<close>. Otherwise it fails with an
  error and writes no document. (This holds for every text class; an unknown one ends the
  run with \<open>KeyError\<close> at the second row, when paragraphs are inserted.)
\<close>

theorem tagged_spans_need_an_open_span:
  "(spans_well_formed insert_paragraphs table \<longrightarrow>
      create_annotated_tei tostring table insert_paragraphs text_class \<noteq> Inl AttributeError)
   \<and> (\<not> spans_well_formed insert_paragraphs table \<longrightarrow>
      (\<exists>e. create_annotated_tei tostring table insert_paragraphs text_class = Inl e))"
proof (cases "insert_paragraphs \<longrightarrow> text_class = ''eltec-deu''")
  case True
  from body_loop_spans [OF True, of "length table" table] show ?thesis
    unfolding spans_well_formed_iff create_annotated_tei_def build_body_def
    by (auto split: sum.splits)
next
  case False
  then have ip: insert_paragraphs and tc: "text_class \<noteq> ''eltec-deu''" by simp_all
  note u = body_loop_unknown_text_class [OF tc, of table "length table"]
  show ?thesis
  proof (intro conjI impI)
    assume wf: "spans_well_formed insert_paragraphs table"
    show "create_annotated_tei tostring table insert_paragraphs text_class \<noteq> Inl AttributeError"
    proof (cases "0 < length table")
      case False
      then show ?thesis by (simp add: create_annotated_tei_def build_body_def)
    next
      case True
      from spans_well_formed_first_row [OF wf True] have nc: "\<not> continues_span (table ! 0)" .
      show ?thesis
      proof (cases "1 < length table")
        case True
        with u nc ip show ?thesis by (simp add: create_annotated_tei_def build_body_def)
      next
        case False
        with u nc ip obtain s where
          "body_loop table True text_class [0 ..< length table] initial_state = Inr s"
          by auto
        with ip show ?thesis by (simp add: create_annotated_tei_def build_body_def)
      qed
    qed
  next
    assume nwf: "\<not> spans_well_formed insert_paragraphs table"
    show "\<exists>e. create_annotated_tei tostring table insert_paragraphs text_class = Inl e"
    proof (cases "continues_span (table ! 0)")
      case True
      from nwf have "0 < length table" by (auto simp: spans_well_formed_iff)
      with u True ip show ?thesis by (simp add: create_annotated_tei_def build_body_def)
    next
      case False
      with nwf spans_well_formed_short [of table insert_paragraphs]
      have "\<not> length table \<le> 1" by blast
      then have "1 < length table" by simp
      with u False ip show ?thesis by (simp add: create_annotated_tei_def build_body_def)
    qed
  qed
qed

text \<open>
  The two-token span of the example does not fail in this way; with a short line break
  between its two tokens the I-tagged token is the first content token of a new paragraph
  and the run fails.
\<close>

theorem tagged_spans_need_an_open_span_witness:
  "spans_well_formed True ex_two_token_table
   \<and> create_annotated_tei text_content ex_two_token_table True ''eltec-deu'' \<noteq> Inl AttributeError
   \<and> \<not> spans_well_formed True ex_line_break_table
   \<and> (\<exists>e. create_annotated_tei text_content ex_line_break_table True ''eltec-deu'' = Inl e)"
proof -
  have w1: "spans_well_formed True ex_two_token_table" by code_simp
  have w2: "\<not> spans_well_formed True ex_line_break_table" by code_simp
  note t1 = tagged_spans_need_an_open_span
    [where insert_paragraphs = True and table = ex_two_token_table and tostring = text_content
       and text_class = "''eltec-deu''"]
  note t2 = tagged_spans_need_an_open_span
    [where insert_paragraphs = True and table = ex_line_break_table and tostring = text_content
       and text_class = "''eltec-deu''"]
  from t1 w1
  have r1: "create_annotated_tei text_content ex_two_token_table True ''eltec-deu'' \<noteq> Inl AttributeError"
    by blast
  from t2 w2
  have r2: "\<exists>e. create_annotated_tei text_content ex_line_break_table True ''eltec-deu'' = Inl e"
    by blast
  from w1 w2 r1 r2 show ?thesis by blast
qed

lemma append_text_frame:
  "length (append_text st el x) = length st"
  "el_children (append_text st el x ! a) = el_children (st ! a)"
  "el_tag (append_text st el x ! a) = el_tag (st ! a)"
proof -
  show "length (append_text st el x) = length st" by (simp add: append_text_def)
  show "el_children (append_text st el x ! a) = el_children (st ! a)"
    by (cases "el < length st"; cases "a = el") (simp_all add: append_text_def list_update_beyond)
  show "el_tag (append_text st el x ! a) = el_tag (st ! a)"
    by (cases "el < length st"; cases "a = el") (simp_all add: append_text_def list_update_beyond)
qed

lemma append_tail_frame:
  "length (append_tail st el x) = length st"
  "el_children (append_tail st el x ! a) = el_children (st ! a)"
  "el_tag (append_tail st el x ! a) = el_tag (st ! a)"
proof -
  show "length (append_tail st el x) = length st" by (simp add: append_tail_def)
  show "el_children (append_tail st el x ! a) = el_children (st ! a)"
    by (cases "el < length st"; cases "a = el") (simp_all add: append_tail_def list_update_beyond)
  show "el_tag (append_tail st el x ! a) = el_tag (st ! a)"
    by (cases "el < length st"; cases "a = el") (simp_all add: append_tail_def list_update_beyond)
qed

lemma add_token_text_frame:
  "length (add_token_text table idx row el st) = length st"
  "el_children (add_token_text table idx row el st ! a) = el_children (st ! a)"
  "el_tag (add_token_text table idx row el st ! a) = el_tag (st ! a)"
  by (simp_all add: add_token_text_def append_text_frame append_tail_frame)

lemma SubElement_frame:
  "snd (SubElement st parent tg at) = length st"
  "length (fst (SubElement st parent tg at)) = Suc (length st)"
  "fst (SubElement st parent tg at) ! length st = Element tg at"
  "q < length st \<Longrightarrow> el_tag (fst (SubElement st parent tg at) ! q) = el_tag (st ! q)"
  "q < length st \<Longrightarrow> el_children (fst (SubElement st parent tg at) ! q)
     = (if q = parent then el_children (st ! q) @ [length st] else el_children (st ! q))"
proof -
  show "snd (SubElement st parent tg at) = length st" by (simp add: SubElement_def)
  show "length (fst (SubElement st parent tg at)) = Suc (length st)" by (simp add: SubElement_def)
  show "fst (SubElement st parent tg at) ! length st = Element tg at"
    by (simp add: SubElement_def nth_append)
  show "el_tag (fst (SubElement st parent tg at) ! q) = el_tag (st ! q)" if "q < length st"
    using that by (cases "q = parent") (simp_all add: SubElement_def nth_append)
  show "el_children (fst (SubElement st parent tg at) ! q)
     = (if q = parent then el_children (st ! q) @ [length st] else el_children (st ! q))"
    if "q < length st"
    using that by (cases "q = parent") (simp_all add: SubElement_def nth_append)
qed

lemma tree_inv_initial: "tree_inv initial_state"
  by (simp add: tree_inv_def initial_state_def initial_store_def SubElement_def Let_def
      body_el_def tei_el_def text_el_def tei_header_el_def Element_def)

lemma py_insert_append: "length xs \<le> i \<Longrightarrow> py_insert i x xs = xs @ [x]"
  by (simp add: py_insert_def)

lemma open_paragraph_tree:
  assumes "tree_inv s" and "length (paragraph_list s) \<le> idx"
  shows "tree_inv (open_paragraph idx s)"
    and "paragraph_list (open_paragraph idx s) = paragraph_list s @ [length (store s)]"
    and "el_tag (store (open_paragraph idx s) ! length (store s)) = TEI @ ''p''"
proof -
  let ?st = "fst (SubElement (store s) body_el (TEI @ ''p'') [])"
  have o: "open_paragraph idx s
      = s\<lparr>store := ?st, paragraph_list := paragraph_list s @ [length (store s)],
           last_sibling_element := None\<rparr>"
    using assms(2)
    by (simp add: open_paragraph_def py_insert_append SubElement_def)
  from assms(1) have b: "body_el < length (store s)"
    and c: "el_children (store s ! body_el) = paragraph_list s"
    and ps: "\<And>p. p \<in> set (paragraph_list s) \<Longrightarrow>
               body_el < p \<and> p < length (store s) \<and> el_tag (store s ! p) = TEI @ ''p''"
    by (simp_all add: tree_inv_def)
  show "paragraph_list (open_paragraph idx s) = paragraph_list s @ [length (store s)]"
    by (simp add: o)
  show "el_tag (store (open_paragraph idx s) ! length (store s)) = TEI @ ''p''"
    by (simp add: o SubElement_frame(3) Element_def)
  show "tree_inv (open_paragraph idx s)"
    unfolding tree_inv_def
  proof (intro conjI ballI)
    from b show "body_el < length (store (open_paragraph idx s))"
      by (simp add: o SubElement_frame(2))
    from b c show "el_children (store (open_paragraph idx s) ! body_el)
        = paragraph_list (open_paragraph idx s)"
      by (simp add: o SubElement_frame(5))
    fix p assume "p \<in> set (paragraph_list (open_paragraph idx s))"
    then consider "p \<in> set (paragraph_list s)" | "p = length (store s)" by (auto simp: o)
    then show "body_el < p" using ps b by cases auto
    show "p < length (store (open_paragraph idx s))"
      using \<open>p \<in> set (paragraph_list (open_paragraph idx s))\<close> ps
      by (auto simp: o SubElement_frame(2) less_Suc_eq)
    show "el_tag (store (open_paragraph idx s) ! p) = TEI @ ''p''"
    proof (cases "p = length (store s)")
      case True
      then show ?thesis by (simp add: o SubElement_frame(3) Element_def)
    next
      case False
      with \<open>p \<in> set (paragraph_list (open_paragraph idx s))\<close>
      have "p \<in> set (paragraph_list s)" by (simp add: o)
      with ps show ?thesis by (simp add: o SubElement_frame(4))
    qed
  qed
qed

lemma token_step_frame:
  assumes "token_step table True idx row s = Inr s'"
    and "\<forall>p \<in> set (paragraph_list s). p \<noteq> body_el \<and> p < length (store s)"
    and "body_el < length (store s)"
  shows "paragraph_list s' = paragraph_list s \<and> length (store s) \<le> length (store s')
       \<and> (\<forall>q < length (store s). el_tag (store s' ! q) = el_tag (store s ! q))
       \<and> el_children (store s' ! body_el) = el_children (store s ! body_el)"
proof (cases "py_in line_break_marker (Token row)")
  case True
  with assms(1) show ?thesis by (simp add: token_step_def)
next
  case content: False
  show ?thesis
  proof (cases "Tag row = ''O''")
    case True
    show ?thesis
    proof (cases "last_sibling_element s")
      case (Some el)
      with assms(1) content True
      have "s' = s\<lparr>store := append_tail (store s) el (Token row @ '' '')\<rparr>"
        by (simp add: token_step_def)
      then show ?thesis by (simp add: append_tail_frame)
    next
      case None
      with assms(1) content True
      have "s' = s\<lparr>store := append_text (store s) (last (paragraph_list s)) (Token row @ '' '')\<rparr>"
        by (simp add: token_step_def current_parent_def split: if_splits)
      then show ?thesis by (simp add: append_text_frame)
    qed
  next
    case tagged: False
    show ?thesis
    proof (cases "startswith (Tag row) ''B-''")
      case False
      with assms(1) content tagged obtain el where
        "s' = s\<lparr>store := add_token_text table idx row el (store s)\<rparr>"
        by (auto simp: token_step_def split: option.splits)
      then show ?thesis by (simp add: add_token_text_frame)
    next
      case True
      let ?parent = "last (paragraph_list s)"
      let ?st = "fst (SubElement (store s) ?parent (CS1 @ drop 2 (Tag row))
                        [(CS1 @ ''annotation'', Annotation_ID row)])"
      from assms(1) content tagged True have ne: "paragraph_list s \<noteq> []"
        by (auto simp: token_step_def current_parent_def split: if_splits)
      with assms(1) content tagged True
      have s': "s' = s\<lparr>store := add_token_text table idx row (length (store s)) ?st,
                        last_sibling_element := Some (length (store s))\<rparr>"
        by (simp add: token_step_def current_parent_def SubElement_def)
      from ne have "?parent \<in> set (paragraph_list s)" by simp
      with assms(2) have pb: "?parent \<noteq> body_el" "body_el \<noteq> ?parent" by auto
      show ?thesis
        by (simp add: s' add_token_text_frame SubElement_frame assms(3) pb)
    qed
  qed
qed

lemma token_step_tree:
  assumes "tree_inv s" and "token_step table True idx row s = Inr s'"
  shows "tree_inv s'" and "paragraph_list s' = paragraph_list s"
    and "el_children (store s' ! body_el) = el_children (store s ! body_el)"
proof -
  from assms(1) have b: "body_el < length (store s)"
    and c: "el_children (store s ! body_el) = paragraph_list s"
    and ps: "\<forall>p \<in> set (paragraph_list s).
               body_el < p \<and> p < length (store s) \<and> el_tag (store s ! p) = TEI @ ''p''"
    by (simp_all add: tree_inv_def)
  from ps have ps': "\<forall>p \<in> set (paragraph_list s). p \<noteq> body_el \<and> p < length (store s)"
    by auto
  note f = token_step_frame [OF assms(2) ps' b]
  from f show "paragraph_list s' = paragraph_list s" by simp
  from f show "el_children (store s' ! body_el) = el_children (store s ! body_el)" by simp
  show "tree_inv s'"
    unfolding tree_inv_def
  proof (intro conjI ballI)
    from f b show "body_el < length (store s')" by simp
    from f c show "el_children (store s' ! body_el) = paragraph_list s'" by simp
    fix p assume "p \<in> set (paragraph_list s')"
    with f have p: "p \<in> set (paragraph_list s)" by simp
    with ps have pp: "body_el < p" "p < length (store s)" "el_tag (store s ! p) = TEI @ ''p''"
      by simp_all
    from pp show "body_el < p" by simp
    from pp f show "p < length (store s')" by simp
    from pp f show "el_tag (store s' ! p) = TEI @ ''p''" by simp
  qed
qed

lemma body_step_paragraphs:
  assumes "tree_inv s" and "length (paragraph_list s) \<le> k"
    and "body_step table True ''eltec-deu'' k s = Inr s'"
  shows "tree_inv s'"
    and "paragraph_list s' =
           (if paragraph_boundary table k then paragraph_list s @ [length (store s)]
            else paragraph_list s)"
proof -
  let ?s1 = "if resets_span True table k then open_paragraph k s else s"
  have ps: "paragraph_step True ''eltec-deu'' k (table ! k) s = Inr ?s1"
    by (rule paragraph_step_result) simp
  with assms(3) have ts: "token_step table True k (table ! k) ?s1 = Inr s'"
    by (simp add: body_step_def)
  have t1: "tree_inv ?s1"
    using assms(1,2) by (simp add: open_paragraph_tree(1))
  have p1: "paragraph_list ?s1 =
      (if paragraph_boundary table k then paragraph_list s @ [length (store s)]
       else paragraph_list s)"
    using assms(1,2) by (simp add: open_paragraph_tree(2) resets_span_def)
  from token_step_tree(1) [OF t1 ts] show "tree_inv s'" .
  from token_step_tree(2) [OF t1 ts] p1
  show "paragraph_list s' =
           (if paragraph_boundary table k then paragraph_list s @ [length (store s)]
            else paragraph_list s)"
    by simp
qed

lemma length_filter_upt_le: "length (filter P [0 ..< k]) \<le> k"
  using length_filter_le [of P "[0 ..< k]"] by simp

lemma body_loop_paragraphs:
  "body_loop table True ''eltec-deu'' [0 ..< k] initial_state = Inr s \<Longrightarrow>
   tree_inv s \<and> length (paragraph_list s) = length (filter (paragraph_boundary table) [0 ..< k])"
proof (induction k arbitrary: s)
  case 0
  then show ?case by (auto simp: tree_inv_initial) (simp add: initial_state_def)
next
  case (Suc k)
  from Suc.prems obtain s1 where
    l: "body_loop table True ''eltec-deu'' [0 ..< k] initial_state = Inr s1"
    and st: "body_step table True ''eltec-deu'' k s1 = Inr s"
    by (auto simp: body_loop_snoc split: sum.splits)
  from Suc.IH [OF l] have t: "tree_inv s1"
    and n: "length (paragraph_list s1) = length (filter (paragraph_boundary table) [0 ..< k])"
    by simp_all
  from n have le: "length (paragraph_list s1) \<le> k" by (simp add: length_filter_upt_le)
  from body_step_paragraphs [OF t le st] n show ?case by simp
qed

lemma body_loop_split:
  assumes "body_loop table ip tc [0 ..< n] s0 = Inr s" and "k < n"
  shows "\<exists>s1 s2. body_loop table ip tc [0 ..< k] s0 = Inr s1
           \<and> body_step table ip tc k s1 = Inr s2
           \<and> body_loop table ip tc [Suc k ..< n] s2 = Inr s"
proof -
  from assms(2) have "[0 ..< n] = [0 ..< k] @ [k ..< n]"
    using upt_add_eq_append [of 0 k "n - k"] by simp
  with assms(2) have "[0 ..< n] = [0 ..< k] @ k # [Suc k ..< n]"
    by (simp add: upt_conv_Cons)
  with assms(1) show ?thesis
    by (auto simp: body_loop_append split: sum.splits)
qed

text \<open>
  C7. With paragraphs inserted and the text class 'eltec-deu', in a run that succeeds, the
  round for row \<open>k\<close> appends a new paragraph element to the body exactly when \<open>k\<close> is the
  first row or the token of the row contains the line-break marker and is shorter than 10
  characters; for any other row, a line-break token of 10 characters or more among them,
  the children of the body stay as they are. The children of the body are \<open>p\<close> elements, and
  at the end there is one for each such row.
\<close>

theorem paragraph_opened_at_boundary_rows:
  assumes "build_body table True ''eltec-deu'' = Inr s" and "k < length table"
  shows "\<exists>s1 s2. body_loop table True ''eltec-deu'' [0 ..< k] initial_state = Inr s1
           \<and> body_step table True ''eltec-deu'' k s1 = Inr s2
           \<and> el_children (store s2 ! body_el) =
               (if k = 0 \<or> (py_in line_break_marker (Token (table ! k))
                              \<and> length (Token (table ! k)) < 10)
                then el_children (store s1 ! body_el) @ [length (store s1)]
                else el_children (store s1 ! body_el))
           \<and> (\<forall>p \<in> set (el_children (store s2 ! body_el)). el_tag (store s2 ! p) = TEI @ ''p'')
           \<and> length (el_children (store s ! body_el)) =
               length (filter (paragraph_boundary table) [0 ..< length table])"
proof -
  from assms have "\<exists>s1 s2. body_loop table True ''eltec-deu'' [0 ..< k] initial_state = Inr s1
           \<and> body_step table True ''eltec-deu'' k s1 = Inr s2
           \<and> body_loop table True ''eltec-deu'' [Suc k ..< length table] s2 = Inr s"
    unfolding build_body_def by (rule body_loop_split)
  then obtain s1 s2 where
    l: "body_loop table True ''eltec-deu'' [0 ..< k] initial_state = Inr s1"
    and st: "body_step table True ''eltec-deu'' k s1 = Inr s2"
    by blast
  from body_loop_paragraphs [OF l] have t1: "tree_inv s1"
    and n1: "length (paragraph_list s1) = length (filter (paragraph_boundary table) [0 ..< k])"
    by simp_all
  from n1 have le: "length (paragraph_list s1) \<le> k" by (simp add: length_filter_upt_le)
  note b = body_step_paragraphs [OF t1 le st]
  from assms(1) have "tree_inv s \<and> length (paragraph_list s)
      = length (filter (paragraph_boundary table) [0 ..< length table])"
    unfolding build_body_def by (rule body_loop_paragraphs)
  then have fin: "length (el_children (store s ! body_el)) =
      length (filter (paragraph_boundary table) [0 ..< length table])"
    by (simp add: tree_inv_def)
  from t1 b have ch: "el_children (store s2 ! body_el) =
               (if k = 0 \<or> (py_in line_break_marker (Token (table ! k))
                              \<and> length (Token (table ! k)) < 10)
                then el_children (store s1 ! body_el) @ [length (store s1)]
                else el_children (store s1 ! body_el))"
    by (simp add: tree_inv_def paragraph_boundary_def)
  from b(1) have tg: "\<forall>p \<in> set (el_children (store s2 ! body_el)). el_tag (store s2 ! p) = TEI @ ''p''"
    by (simp add: tree_inv_def)
  from l st ch tg fin show ?thesis by blast
qed

text \<open>Row 3 of the example is a short line-break token and opens the second paragraph.\<close>

theorem paragraph_opened_at_boundary_rows_witness:
  "\<not> isl (build_body ex_two_paragraph_table True ''eltec-deu'')
   \<and> (3::nat) < length ex_two_paragraph_table
   \<and> (\<exists>s1 s2. body_loop ex_two_paragraph_table True ''eltec-deu'' [0 ..< 3] initial_state = Inr s1
        \<and> body_step ex_two_paragraph_table True ''eltec-deu'' 3 s1 = Inr s2
        \<and> el_children (store s2 ! body_el) = el_children (store s1 ! body_el) @ [length (store s1)])"
proof -
  have h0: "\<not> isl (build_body ex_two_paragraph_table True ''eltec-deu'')" by code_simp
  then have h1: "build_body ex_two_paragraph_table True ''eltec-deu''
      = Inr (projr (build_body ex_two_paragraph_table True ''eltec-deu''))"
    by simp
  have h2: "(3::nat) < length ex_two_paragraph_table" by code_simp
  have c: "py_in line_break_marker (Token (ex_two_paragraph_table ! 3))
      \<and> length (Token (ex_two_paragraph_table ! 3)) < 10"
    by code_simp
  from paragraph_opened_at_boundary_rows [OF h1 h2] obtain s1 s2 where
    "body_loop ex_two_paragraph_table True ''eltec-deu'' [0 ..< 3] initial_state = Inr s1"
    "body_step ex_two_paragraph_table True ''eltec-deu'' 3 s1 = Inr s2"
    "el_children (store s2 ! body_el) =
               (if (3::nat) = 0 \<or> (py_in line_break_marker (Token (ex_two_paragraph_table ! 3))
                              \<and> length (Token (ex_two_paragraph_table ! 3)) < 10)
                then el_children (store s1 ! body_el) @ [length (store s1)]
                else el_children (store s1 ! body_el))"
    by blast
  with c have "\<exists>s1 s2. body_loop ex_two_paragraph_table True ''eltec-deu'' [0 ..< 3] initial_state = Inr s1
        \<and> body_step ex_two_paragraph_table True ''eltec-deu'' 3 s1 = Inr s2
        \<and> el_children (store s2 ! body_el) = el_children (store s1 ! body_el) @ [length (store s1)]"
    by (intro exI [of _ s1] exI [of _ s2]) simp
  with h0 h2 show ?thesis by blast
qed

text \<open>
  C8. The text that \<open>create_annotated_tei\<close> writes is the serialization of the whole tree
  with the nine replacements applied to it one after the other, in the order of the
  table: the space before a period, a comma, a colon and a semicolon, the space after the
  guillemet 0xBB, the space before the guillemet 0xAB, the space before a question mark
  and an exclamation mark, and the space before the closing paragraph tag.
\<close>

theorem punctuation_correction_of_output:
  assumes "create_annotated_tei tostring table insert_paragraphs text_class = Inr out"
  shows "\<exists>s. build_body table insert_paragraphs text_class = Inr s
           \<and> out =
             py_replace '' </p>'' ''</p>''
              (py_replace '' !'' ''!''
               (py_replace '' ?'' ''?''
                (py_replace [CHR '' '', CHR 0xAB] [CHR 0xAB]
                 (py_replace [CHR 0xBB, CHR '' ''] [CHR 0xBB]
                  (py_replace '' ;'' '';''
                   (py_replace '' :'' '':''
                    (py_replace '' ,'' '',''
                     (py_replace '' .'' ''.'' (tostring (store s))))))))))"
  using assms
  by (auto simp: create_annotated_tei_def fix_punctuation_def corrections_def split: sum.splits)

text \<open>The sentence of the example loses the space before its period.\<close>

theorem punctuation_correction_of_output_witness:
  "create_annotated_tei text_content ex_two_paragraph_table True ''eltec-deu''
     = Inr ''Ein Haus. Ende ''
   \<and> (\<exists>s. build_body ex_two_paragraph_table True ''eltec-deu'' = Inr s
        \<and> text_content (store s) = ''Ein Haus . Ende '')"
proof -
  have h: "create_annotated_tei text_content ex_two_paragraph_table True ''eltec-deu''
     = Inr ''Ein Haus. Ende ''"
    by code_simp
  from punctuation_correction_of_output [OF h] obtain s where
    s: "build_body ex_two_paragraph_table True ''eltec-deu'' = Inr s" by blast
  have "case build_body ex_two_paragraph_table True ''eltec-deu'' of
          Inl e \<Rightarrow> False | Inr s \<Rightarrow> text_content (store s) = ''Ein Haus . Ende ''"
    by code_simp
  with s have "text_content (store s) = ''Ein Haus . Ende ''" by simp
  with h s show ?thesis by blast
qed

end
